theory Spec2Isabelle
  imports Main "HOL-Library.AList" "HOL-Library.Multiset"
begin

section \<open>Values, records and exceptions\<close>

text \<open>
  The cache of \<^verbatim>\<open>wbcache/lookup_container.py\<close> indexes Django model instances. An
  instance is a heap object: it is shared by reference between the caller, the indexes
  and the change log, and its primary key is assigned in place. The model keeps a heap
  from references to instances; every operation that reads an attribute takes the heap
  it reads from.

  Attribute values are \<open>None\<close>, integers, strings and instances of
  \<^verbatim>\<open>UniqueTransientValue\<close>. A \<^verbatim>\<open>UniqueTransientValue\<close> has no fields; its
  \<^verbatim>\<open>__eq__\<close> is \<^verbatim>\<open>self is other\<close> and its hash is the default one, so it is
  modelled by its allocation number: two of them are equal exactly when they are the
  same allocation, and none is equal to a value of another kind.
\<close>

type_synonym objref = nat

datatype val = VNone | VInt int | VStr string | VTransient nat

record model =
  pk :: val
  attrs :: "(string \<times> val) list"

type_synonym heap = "objref \<Rightarrow> model"

text \<open>
  Exceptions are values. \<open>Failure msg\<close> is what \<^verbatim>\<open>util.fail(msg)\<close> and a failed
  \<^verbatim>\<open>util.validate\<close> raise; the others are Python's own.
\<close>

datatype error = AttributeError | TypeError | KeyError | ValueError | Failure string

type_synonym 'a result = "error + 'a"

text \<open>
  Modelled from the spec: module \<^verbatim>\<open>util\<close> is imported by the source but is not part of
  it. Section 7 of the specification says that a violated integrity check fails loudly
  and immediately: \<^verbatim>\<open>util.validate(cond, msg)\<close> raises unless \<open>cond\<close> holds,
  \<^verbatim>\<open>util.validate_equals(a, b)\<close> raises unless \<open>a = b\<close>.
\<close>

definition validate :: "bool \<Rightarrow> string \<Rightarrow> unit result" where
  "validate cond msg = (if cond then Inr () else Inl (Failure msg))"

definition validate_equals :: "nat \<Rightarrow> nat \<Rightarrow> unit result" where
  "validate_equals a b = (if a = b then Inr () else Inl (Failure ''validate_equals''))"

text \<open>
  The containers are duck typed: they use \<^verbatim>\<open>getattr\<close>, \<^verbatim>\<open>==\<close> and \<^verbatim>\<open>hash\<close> of
  their elements and nothing else. The element's class supplies the three; \<open>getattr\<close>
  is \<open>None\<close> where Python raises AttributeError, \<open>hashable\<close> is false where
  \<^verbatim>\<open>hash\<close> raises TypeError.
\<close>

record 'e pyops =
  getattr :: "'e \<Rightarrow> string \<Rightarrow> val option"
  eq :: "'e \<Rightarrow> 'e \<Rightarrow> bool"
  hashable :: "'e \<Rightarrow> bool"

text \<open>
  Modelled from the spec: the record class is the caller's (a Django model) and is not
  part of the source. Its equality is the one the docstring of \<^verbatim>\<open>add\<close> relies on: an
  instance whose pk is \<open>None\<close> is equal to itself only (and is not hashable), two
  instances with a pk are equal when their pks are.
\<close>

definition model_getattr :: "heap \<Rightarrow> objref \<Rightarrow> string \<Rightarrow> val option" where
  "model_getattr h r k = (if k = ''pk'' then Some (pk (h r)) else map_of (attrs (h r)) k)"

definition model_eq :: "heap \<Rightarrow> objref \<Rightarrow> objref \<Rightarrow> bool" where
  "model_eq h a b = (if pk (h a) = VNone then a = b else pk (h a) = pk (h b))"

definition model_hashable :: "heap \<Rightarrow> objref \<Rightarrow> bool" where
  "model_hashable h r = (pk (h r) \<noteq> VNone)"

definition model_ops :: "heap \<Rightarrow> objref pyops" where
  "model_ops h = \<lparr>getattr = model_getattr h, eq = model_eq h, hashable = model_hashable h\<rparr>"

subsection \<open>Return codes of \<^verbatim>\<open>LookupContainer\<close>\<close>

definition LOOKUP_NOT_SUPPORTED :: nat where "LOOKUP_NOT_SUPPORTED = 0"
definition VALUE_UNKNOWN :: nat where "VALUE_UNKNOWN = 1"
definition VALUE_DOES_NOT_EXIST :: nat where "VALUE_DOES_NOT_EXIST = 2"
definition VALUE_FOUND :: nat where "VALUE_FOUND = 3"

text \<open>
  Keyword arguments (\<^verbatim>\<open>**parameters\<close>) are a dictionary from names to values, kept
  as an association list; Python never passes the same name twice.
  \<^verbatim>\<open>can_answer_authoritatively\<close> is a method a subclass may override; the one of
  \<^verbatim>\<open>LookupContainer\<close> answers False.
\<close>

type_synonym parameters = "(string \<times> val) list"

definition LookupContainer_can_answer_authoritatively :: "parameters \<Rightarrow> bool" where
  "LookupContainer_can_answer_authoritatively parameters = False"

subsection \<open>Python's dictionaries and lists\<close>

text \<open>
  A dictionary is an association list with distinct keys in insertion order:
  \<open>map_of\<close> reads it, \<open>AList.update\<close> writes it (in place for a key that is there, at
  the end for a new one). Reading \<^verbatim>\<open>d[k]\<close> from a \<^verbatim>\<open>collections.defaultdict\<close>
  stores the default under a missing key before it returns it.
\<close>

definition defaultdict_getitem ::
  "'v \<Rightarrow> ('k \<times> 'v) list \<Rightarrow> 'k \<Rightarrow> 'v \<times> ('k \<times> 'v) list" where
  "defaultdict_getitem dflt d k =
     (case map_of d k of
        Some v \<Rightarrow> (v, d)
      | None \<Rightarrow> (dflt, d @ [(k, dflt)]))"

text \<open>
  \<^verbatim>\<open>list.remove(x)\<close> deletes the first item that is \<open>x\<close> or is equal to \<open>x\<close>, and
  raises ValueError (here \<open>None\<close>) when there is none. Container operations try
  identity before \<^verbatim>\<open>==\<close>; the operators \<^verbatim>\<open>==\<close> and \<^verbatim>\<open>!=\<close> themselves do not.
\<close>

fun list_remove :: "('e \<Rightarrow> 'e \<Rightarrow> bool) \<Rightarrow> 'e \<Rightarrow> 'e list \<Rightarrow> 'e list option" where
  "list_remove e x [] = None"
| "list_remove e x (y # ys) =
     (if y = x \<or> e y x then Some ys else map_option ((#) y) (list_remove e x ys))"

section \<open>\<^verbatim>\<open>DefaultListLookup\<close>: a dictionary of sorted lists\<close>

text \<open>
  \<^verbatim>\<open>_sort_key\<close> is the caller's key function; \<^verbatim>\<open>list.sort(key=...)\<close> is a stable
  sort, as \<open>sort_key\<close> is. With \<^verbatim>\<open>sort_key=None\<close> Python compares the elements
  themselves, which is the identity as key function.
\<close>

record ('e, 's) DefaultListLookup =
  d_key_attributes :: "string list"
  d_sort_key :: "'e \<Rightarrow> 's"
  d_index :: "(val list \<times> 'e list) list"

definition DefaultListLookup_init ::
  "string list \<Rightarrow> ('e \<Rightarrow> 's) \<Rightarrow> ('e, 's) DefaultListLookup" where
  "DefaultListLookup_init key_attributes skey =
     \<lparr>d_key_attributes = key_attributes, d_sort_key = skey, d_index = []\<rparr>"

definition DefaultListLookup_key ::
  "'e pyops \<Rightarrow> ('e, 's) DefaultListLookup \<Rightarrow> 'e \<Rightarrow> val list option" where
  "DefaultListLookup_key ops self elem =
     those (map (getattr ops elem) (d_key_attributes self))"

definition DefaultListLookup_add ::
  "'e pyops \<Rightarrow> ('e, 's::linorder) DefaultListLookup \<Rightarrow> 'e
     \<Rightarrow> unit result \<times> ('e, 's) DefaultListLookup" where
  "DefaultListLookup_add ops self elem =
     (case DefaultListLookup_key ops self elem of
        None \<Rightarrow> (Inl AttributeError, self)
      | Some key \<Rightarrow>
          (case defaultdict_getitem [] (d_index self) key of
             (bucket, index1) \<Rightarrow>
               (let removed = (case list_remove (eq ops) elem bucket of
                                 None \<Rightarrow> bucket
                               | Some bucket' \<Rightarrow> bucket');
                    appended = removed @ [elem];
                    sorted_bucket = sort_key (d_sort_key self) appended
                in (Inr (), self\<lparr>d_index := AList.update key sorted_bucket index1\<rparr>))))"

text \<open>The first loop of the fast path of \<^verbatim>\<open>bulk_add\<close>: append, nothing else.\<close>

fun DefaultListLookup_append_all ::
  "'e pyops \<Rightarrow> ('e, 's) DefaultListLookup \<Rightarrow> 'e list
     \<Rightarrow> unit result \<times> ('e, 's) DefaultListLookup" where
  "DefaultListLookup_append_all ops self [] = (Inr (), self)"
| "DefaultListLookup_append_all ops self (item # items) =
     (case DefaultListLookup_key ops self item of
        None \<Rightarrow> (Inl AttributeError, self)
      | Some key \<Rightarrow>
          (case defaultdict_getitem [] (d_index self) key of
             (bucket, index1) \<Rightarrow>
               DefaultListLookup_append_all ops
                 (self\<lparr>d_index := AList.update key (bucket @ [item]) index1\<rparr>) items))"

text \<open>Its second loop: sort every bucket once.\<close>

definition DefaultListLookup_sort_all ::
  "('e, 's::linorder) DefaultListLookup \<Rightarrow> ('e, 's) DefaultListLookup" where
  "DefaultListLookup_sort_all self =
     self\<lparr>d_index := map (\<lambda>(key, val). (key, sort_key (d_sort_key self) val)) (d_index self)\<rparr>"

text \<open>The slow path: \<^verbatim>\<open>for item in items: self.add(item)\<close>.\<close>

fun DefaultListLookup_add_each ::
  "'e pyops \<Rightarrow> ('e, 's::linorder) DefaultListLookup \<Rightarrow> 'e list
     \<Rightarrow> unit result \<times> ('e, 's) DefaultListLookup" where
  "DefaultListLookup_add_each ops self [] = (Inr (), self)"
| "DefaultListLookup_add_each ops self (item # items) =
     (case DefaultListLookup_add ops self item of
        (Inl e, self') \<Rightarrow> (Inl e, self')
      | (Inr u, self') \<Rightarrow> DefaultListLookup_add_each ops self' items)"

definition DefaultListLookup_len :: "('e, 's) DefaultListLookup \<Rightarrow> nat" where
  "DefaultListLookup_len self = length (d_index self)"

definition DefaultListLookup_bulk_add ::
  "'e pyops \<Rightarrow> ('e, 's::linorder) DefaultListLookup \<Rightarrow> 'e list
     \<Rightarrow> unit result \<times> ('e, 's) DefaultListLookup" where
  "DefaultListLookup_bulk_add ops self items =
     (if DefaultListLookup_len self = 0 then
        (case DefaultListLookup_append_all ops self items of
           (Inl e, self') \<Rightarrow> (Inl e, self')
         | (Inr u, self') \<Rightarrow> (Inr (), DefaultListLookup_sort_all self'))
      else DefaultListLookup_add_each ops self items)"

definition DefaultListLookup_clear ::
  "('e, 's) DefaultListLookup \<Rightarrow> ('e, 's) DefaultListLookup" where
  "DefaultListLookup_clear self = self\<lparr>d_index := []\<rparr>"

definition DefaultListLookup_delete ::
  "'e pyops \<Rightarrow> ('e, 's) DefaultListLookup \<Rightarrow> 'e
     \<Rightarrow> unit result \<times> ('e, 's) DefaultListLookup" where
  "DefaultListLookup_delete ops self elem =
     (case DefaultListLookup_key ops self elem of
        None \<Rightarrow> (Inl AttributeError, self)
      | Some key \<Rightarrow>
          (case map_of (d_index self) key of
             None \<Rightarrow> (validate False ''ERROR 934923432'', self)
           | Some bucket \<Rightarrow>
               (Inr (), self\<lparr>d_index :=
                  AList.update key (filter (\<lambda>e. \<not> eq ops e elem) bucket) (d_index self)\<rparr>)))"

text \<open>
  \<^verbatim>\<open>lookup\<close> returns a code and a payload, and the index as the call leaves it:
  \<^verbatim>\<open>self._index[key]\<close> is a read of a defaultdict.
\<close>

definition DefaultListLookup_lookup ::
  "(parameters \<Rightarrow> bool) \<Rightarrow> ('e, 's) DefaultListLookup \<Rightarrow> parameters
     \<Rightarrow> (nat \<times> 'e list option) \<times> ('e, 's) DefaultListLookup" where
  "DefaultListLookup_lookup can_answer_authoritatively self parameters =
     (if length parameters \<noteq> length (d_key_attributes self) then
        ((LOOKUP_NOT_SUPPORTED, None), self)
      else
        (case those (map (map_of parameters) (d_key_attributes self)) of
           None \<Rightarrow> ((LOOKUP_NOT_SUPPORTED, None), self)
         | Some key \<Rightarrow>
             (case defaultdict_getitem [] (d_index self) key of
                (bucket, index1) \<Rightarrow>
                  (if bucket \<noteq> [] then
                     ((VALUE_FOUND, Some bucket), self\<lparr>d_index := index1\<rparr>)
                   else if can_answer_authoritatively parameters then
                     ((VALUE_DOES_NOT_EXIST, None), self\<lparr>d_index := index1\<rparr>)
                   else
                     ((VALUE_UNKNOWN, None), self\<lparr>d_index := index1\<rparr>)))))"

section \<open>\<^verbatim>\<open>ListLookup\<close>: a dictionary of sorted sets\<close>

text \<open>
  A bucket of \<^verbatim>\<open>ListLookup\<close> is a \<^verbatim>\<open>sortedcontainers.SortedSet(key=sort_key)\<close>: a hash
  set of its members together with a list of them sorted by the key. The model keeps the
  sorted list; membership is by \<^verbatim>\<open>hash\<close>, then identity or \<^verbatim>\<open>==\<close>, so a value
  whose hash raises makes every operation raise TypeError.

  The list part adds a value behind the values whose key is not greater
  (\<^verbatim>\<open>bisect_right\<close>), and removes a value by walking the run of values with the same
  sort key until one is equal to it; it raises ValueError when that run has none.
\<close>

definition SortedSet_contains :: "'e pyops \<Rightarrow> 'e list \<Rightarrow> 'e \<Rightarrow> bool" where
  "SortedSet_contains ops ss v = (\<exists>y \<in> set ss. y = v \<or> eq ops y v)"

fun SortedKeyList_add :: "('e \<Rightarrow> 's::linorder) \<Rightarrow> 'e \<Rightarrow> 'e list \<Rightarrow> 'e list" where
  "SortedKeyList_add f v [] = [v]"
| "SortedKeyList_add f v (y # ys) =
     (if f v < f y then v # y # ys else y # SortedKeyList_add f v ys)"

fun SortedKeyList_remove ::
  "'e pyops \<Rightarrow> ('e \<Rightarrow> 's) \<Rightarrow> 'e \<Rightarrow> 'e list \<Rightarrow> 'e list option" where
  "SortedKeyList_remove ops f v [] = None"
| "SortedKeyList_remove ops f v (y # ys) =
     (if f y = f v \<and> eq ops y v then Some ys
      else map_option ((#) y) (SortedKeyList_remove ops f v ys))"

text \<open>
  When \<^verbatim>\<open>discard\<close> or \<^verbatim>\<open>remove\<close> raises ValueError the hash set has already lost
  the value and the list has not; the model returns the error and does not follow such a
  set any further.
\<close>

definition SortedSet_add ::
  "'e pyops \<Rightarrow> ('e \<Rightarrow> 's::linorder) \<Rightarrow> 'e list \<Rightarrow> 'e \<Rightarrow> 'e list result" where
  "SortedSet_add ops f ss v =
     (if \<not> hashable ops v then Inl TypeError
      else if \<not> SortedSet_contains ops ss v then Inr (SortedKeyList_add f v ss)
      else Inr ss)"

definition SortedSet_discard ::
  "'e pyops \<Rightarrow> ('e \<Rightarrow> 's) \<Rightarrow> 'e list \<Rightarrow> 'e \<Rightarrow> 'e list result" where
  "SortedSet_discard ops f ss v =
     (if \<not> hashable ops v then Inl TypeError
      else if SortedSet_contains ops ss v then
        (case SortedKeyList_remove ops f v ss of
           None \<Rightarrow> Inl ValueError
         | Some ss' \<Rightarrow> Inr ss')
      else Inr ss)"

definition SortedSet_remove ::
  "'e pyops \<Rightarrow> ('e \<Rightarrow> 's) \<Rightarrow> 'e list \<Rightarrow> 'e \<Rightarrow> 'e list result" where
  "SortedSet_remove ops f ss v =
     (if \<not> hashable ops v then Inl TypeError
      else if \<not> SortedSet_contains ops ss v then Inl KeyError
      else
        (case SortedKeyList_remove ops f v ss of
           None \<Rightarrow> Inl ValueError
         | Some ss' \<Rightarrow> Inr ss'))"

record ('e, 's) ListLookup =
  l_key_attributes :: "string list"
  l_sort_key :: "'e \<Rightarrow> 's"
  l_index :: "(val list \<times> 'e list) list"

definition ListLookup_init :: "string list \<Rightarrow> ('e \<Rightarrow> 's) \<Rightarrow> ('e, 's) ListLookup" where
  "ListLookup_init key_attributes skey =
     \<lparr>l_key_attributes = key_attributes, l_sort_key = skey, l_index = []\<rparr>"

definition ListLookup_key ::
  "'e pyops \<Rightarrow> ('e, 's) ListLookup \<Rightarrow> 'e \<Rightarrow> val list option" where
  "ListLookup_key ops self elem = those (map (getattr ops elem) (l_key_attributes self))"

fun ListLookup_bulk_add ::
  "'e pyops \<Rightarrow> ('e, 's::linorder) ListLookup \<Rightarrow> 'e list
     \<Rightarrow> unit result \<times> ('e, 's) ListLookup" where
  "ListLookup_bulk_add ops self [] = (Inr (), self)"
| "ListLookup_bulk_add ops self (item # items) =
     (case ListLookup_key ops self item of
        None \<Rightarrow> (Inl AttributeError, self)
      | Some key \<Rightarrow>
          (case defaultdict_getitem [] (l_index self) key of
             (bucket, index1) \<Rightarrow>
               (case SortedSet_add ops (l_sort_key self) bucket item of
                  Inl e \<Rightarrow> (Inl e, self\<lparr>l_index := index1\<rparr>)
                | Inr bucket' \<Rightarrow>
                    ListLookup_bulk_add ops
                      (self\<lparr>l_index := AList.update key bucket' index1\<rparr>) items)))"

definition ListLookup_add ::
  "'e pyops \<Rightarrow> ('e, 's::linorder) ListLookup \<Rightarrow> 'e
     \<Rightarrow> unit result \<times> ('e, 's) ListLookup" where
  "ListLookup_add ops self elem =
     (case ListLookup_key ops self elem of
        None \<Rightarrow> (Inl AttributeError, self)
      | Some key \<Rightarrow>
          (case defaultdict_getitem [] (l_index self) key of
             (bucket, index1) \<Rightarrow>
               (case SortedSet_discard ops (l_sort_key self) bucket elem of
                  Inl e \<Rightarrow> (Inl e, self\<lparr>l_index := index1\<rparr>)
                | Inr bucket1 \<Rightarrow>
                    (case SortedSet_add ops (l_sort_key self) bucket1 elem of
                       Inl e \<Rightarrow> (Inl e, self\<lparr>l_index := AList.update key bucket1 index1\<rparr>)
                     | Inr bucket2 \<Rightarrow>
                         (Inr (), self\<lparr>l_index := AList.update key bucket2 index1\<rparr>)))))"

definition ListLookup_clear :: "('e, 's) ListLookup \<Rightarrow> ('e, 's) ListLookup" where
  "ListLookup_clear self = self\<lparr>l_index := []\<rparr>"

definition ListLookup_delete ::
  "'e pyops \<Rightarrow> ('e, 's) ListLookup \<Rightarrow> 'e \<Rightarrow> unit result \<times> ('e, 's) ListLookup" where
  "ListLookup_delete ops self elem =
     (case ListLookup_key ops self elem of
        None \<Rightarrow> (Inl AttributeError, self)
      | Some key \<Rightarrow>
          (case map_of (l_index self) key of
             None \<Rightarrow> (validate False ''ERROR 934923432'', self)
           | Some bucket \<Rightarrow>
               (case SortedSet_remove ops (l_sort_key self) bucket elem of
                  Inl e \<Rightarrow> (Inl e, self)
                | Inr bucket' \<Rightarrow>
                    (Inr (), self\<lparr>l_index := AList.update key bucket' (l_index self)\<rparr>))))"

definition ListLookup_len :: "('e, 's) ListLookup \<Rightarrow> nat" where
  "ListLookup_len self = length (l_index self)"

text \<open>
  \<^verbatim>\<open>ListLookup.lookup\<close> asks \<^verbatim>\<open>key in self._index\<close> first, so it does not touch the
  dictionary.
\<close>

definition ListLookup_lookup ::
  "(parameters \<Rightarrow> bool) \<Rightarrow> ('e, 's) ListLookup \<Rightarrow> parameters \<Rightarrow> nat \<times> 'e list option" where
  "ListLookup_lookup can_answer_authoritatively self parameters =
     (if length parameters \<noteq> length (l_key_attributes self) then (LOOKUP_NOT_SUPPORTED, None)
      else
        (case those (map (map_of parameters) (l_key_attributes self)) of
           None \<Rightarrow> (LOOKUP_NOT_SUPPORTED, None)
         | Some key \<Rightarrow>
             (if (case map_of (l_index self) key of None \<Rightarrow> False | Some bucket \<Rightarrow> bucket \<noteq> [])
              then (VALUE_FOUND, map_of (l_index self) key)
              else if can_answer_authoritatively parameters then (VALUE_DOES_NOT_EXIST, None)
              else (VALUE_UNKNOWN, None))))"

section \<open>\<^verbatim>\<open>CompositeLookup\<close>\<close>

text \<open>
  A composite holds a list of member containers and calls each member's own method:
  the method is a parameter here, as dynamic dispatch makes it in Python. The members
  are separate objects, so a call on one leaves the others as they are.
  \<^verbatim>\<open>for idx in self.indexes: idx.m(elem)\<close> stops at the first member that raises.
\<close>

fun CompositeLookup_each ::
  "('i \<Rightarrow> unit result \<times> 'i) \<Rightarrow> 'i list \<Rightarrow> unit result \<times> 'i list" where
  "CompositeLookup_each m [] = (Inr (), [])"
| "CompositeLookup_each m (idx # rest) =
     (case m idx of
        (Inl e, idx') \<Rightarrow> (Inl e, idx' # rest)
      | (Inr u, idx') \<Rightarrow>
          (case CompositeLookup_each m rest of (r, rest') \<Rightarrow> (r, idx' # rest')))"

definition CompositeLookup_clear :: "('i \<Rightarrow> 'i) \<Rightarrow> 'i list \<Rightarrow> 'i list" where
  "CompositeLookup_clear member_clear indexes = map member_clear indexes"

definition CompositeLookup_add ::
  "('i \<Rightarrow> 'e \<Rightarrow> unit result \<times> 'i) \<Rightarrow> 'i list \<Rightarrow> 'e \<Rightarrow> unit result \<times> 'i list" where
  "CompositeLookup_add member_add indexes elem =
     CompositeLookup_each (\<lambda>idx. member_add idx elem) indexes"

definition CompositeLookup_bulk_add ::
  "('i \<Rightarrow> 'e list \<Rightarrow> unit result \<times> 'i) \<Rightarrow> 'i list \<Rightarrow> 'e list \<Rightarrow> unit result \<times> 'i list" where
  "CompositeLookup_bulk_add member_bulk_add indexes items =
     CompositeLookup_each (\<lambda>idx. member_bulk_add idx items) indexes"

definition CompositeLookup_delete ::
  "('i \<Rightarrow> 'e \<Rightarrow> unit result \<times> 'i) \<Rightarrow> 'i list \<Rightarrow> 'e \<Rightarrow> unit result \<times> 'i list" where
  "CompositeLookup_delete member_delete indexes elem =
     CompositeLookup_each (\<lambda>idx. member_delete idx elem) indexes"

text \<open>
  The loop of \<^verbatim>\<open>CompositeLookup.lookup\<close>, with \<open>retcode\<close> the running maximum. A
  member's lookup returns its code, its payload and the member as the call leaves it.
\<close>

fun CompositeLookup_lookup_loop ::
  "('i \<Rightarrow> parameters \<Rightarrow> (nat \<times> 'p option) \<times> 'i) \<Rightarrow> nat \<Rightarrow> 'i list \<Rightarrow> parameters
     \<Rightarrow> (nat \<times> 'p option) \<times> 'i list" where
  "CompositeLookup_lookup_loop member_lookup retcode [] parameters = ((retcode, None), [])"
| "CompositeLookup_lookup_loop member_lookup retcode (idx # rest) parameters =
     (case member_lookup idx parameters of
        ((new_retcode, result), idx') \<Rightarrow>
          (if new_retcode \<in> set [VALUE_FOUND, VALUE_DOES_NOT_EXIST] then
             ((new_retcode, result), idx' # rest)
           else
             (case CompositeLookup_lookup_loop member_lookup (max retcode new_retcode)
                     rest parameters of
                (r, rest') \<Rightarrow> (r, idx' # rest'))))"

definition CompositeLookup_lookup ::
  "('i \<Rightarrow> parameters \<Rightarrow> (nat \<times> 'p option) \<times> 'i) \<Rightarrow> 'i list \<Rightarrow> parameters
     \<Rightarrow> (nat \<times> 'p option) \<times> 'i list" where
  "CompositeLookup_lookup member_lookup indexes parameters =
     CompositeLookup_lookup_loop member_lookup LOOKUP_NOT_SUPPORTED indexes parameters"

text \<open>The two in-memory containers as members of a composite over model instances.\<close>

datatype 's index =
    ListLookupIndex "(objref, 's) ListLookup"
  | DefaultListLookupIndex "(objref, 's) DefaultListLookup"

fun index_add :: "heap \<Rightarrow> ('s::linorder) index \<Rightarrow> objref \<Rightarrow> unit result \<times> 's index" where
  "index_add h (ListLookupIndex l) elem =
     (case ListLookup_add (model_ops h) l elem of (r, l') \<Rightarrow> (r, ListLookupIndex l'))"
| "index_add h (DefaultListLookupIndex d) elem =
     (case DefaultListLookup_add (model_ops h) d elem of
        (r, d') \<Rightarrow> (r, DefaultListLookupIndex d'))"

fun index_delete :: "heap \<Rightarrow> 's index \<Rightarrow> objref \<Rightarrow> unit result \<times> 's index" where
  "index_delete h (ListLookupIndex l) elem =
     (case ListLookup_delete (model_ops h) l elem of (r, l') \<Rightarrow> (r, ListLookupIndex l'))"
| "index_delete h (DefaultListLookupIndex d) elem =
     (case DefaultListLookup_delete (model_ops h) d elem of
        (r, d') \<Rightarrow> (r, DefaultListLookupIndex d'))"

fun index_clear :: "'s index \<Rightarrow> 's index" where
  "index_clear (ListLookupIndex l) = ListLookupIndex (ListLookup_clear l)"
| "index_clear (DefaultListLookupIndex d) = DefaultListLookupIndex (DefaultListLookup_clear d)"

fun index_lookup ::
  "'s index \<Rightarrow> parameters \<Rightarrow> (nat \<times> objref list option) \<times> 's index" where
  "index_lookup (ListLookupIndex l) parameters =
     (ListLookup_lookup LookupContainer_can_answer_authoritatively l parameters,
      ListLookupIndex l)"
| "index_lookup (DefaultListLookupIndex d) parameters =
     (case DefaultListLookup_lookup LookupContainer_can_answer_authoritatively d parameters of
        (r, d') \<Rightarrow> (r, DefaultListLookupIndex d'))"

fun index_buckets :: "'s index \<Rightarrow> (val list \<times> objref list) list" where
  "index_buckets (ListLookupIndex l) = l_index l"
| "index_buckets (DefaultListLookupIndex d) = d_index d"

section \<open>The backing store, \<^verbatim>\<open>Sequence\<close> and the change records\<close>

text \<open>
  \<^verbatim>\<open>Sequence.next_value\<close> increments under a lock and returns the new value. One
  thread runs the model, so the lock is not part of it.
\<close>

record Sequence =
  seq_value :: nat

definition Sequence_init :: Sequence where
  "Sequence_init = \<lparr>seq_value = 0\<rparr>"

definition next_value :: "Sequence \<Rightarrow> nat \<times> Sequence" where
  "next_value self = (seq_value self + 1, self\<lparr>seq_value := seq_value self + 1\<rparr>)"

text \<open>
  Everything outside the cache: the heap of model instances, the class attribute
  \<^verbatim>\<open>DjangoModelChange._change_counter\<close>, the number of
  \<^verbatim>\<open>UniqueTransientValue\<close> objects allocated so far, and the backing store, which is
  the list of calls it has received and the next primary key it will hand out.
\<close>

type_synonym kwargs = "(string \<times> val) list"

datatype store_call = SaveCall objref kwargs | DeleteCall objref

record world =
  heap :: heap
  change_counter_seq :: Sequence
  transient_count :: nat
  db_calls :: "store_call list"
  db_next_pk :: int

text \<open>
  Modelled from the spec: \<^verbatim>\<open>obj.save(**options)\<close> and \<^verbatim>\<open>obj.delete()\<close> are methods of
  the caller's Django model. Section 6 of the specification: save persists the current
  field state and, if the record had no identity, the store assigns one; delete removes
  the persisted record. Neither call fails in the model.
\<close>

definition db_save :: "objref \<Rightarrow> kwargs \<Rightarrow> world \<Rightarrow> world" where
  "db_save r options w =
     (let w1 = w\<lparr>db_calls := db_calls w @ [SaveCall r options]\<rparr>
      in if pk (heap w1 r) = VNone then
           w1\<lparr>heap := (heap w1)(r := (heap w1 r)\<lparr>pk := VInt (db_next_pk w1)\<rparr>),
               db_next_pk := db_next_pk w1 + 1\<rparr>
         else w1)"

definition db_delete :: "objref \<Rightarrow> world \<Rightarrow> world" where
  "db_delete r w = w\<lparr>db_calls := db_calls w @ [DeleteCall r]\<rparr>"

text \<open>\<^verbatim>\<open>DjangoReadWriteInterface\<close> passes every request to the store.\<close>

definition DjangoReadWriteInterface_add :: "objref \<Rightarrow> world \<Rightarrow> world" where
  "DjangoReadWriteInterface_add elem w = db_save elem [] w"

definition DjangoReadWriteInterface_delete :: "objref \<Rightarrow> world \<Rightarrow> world" where
  "DjangoReadWriteInterface_delete elem w = db_delete elem w"

text \<open>
  A change record is a \<^verbatim>\<open>SaveOp\<close> or a \<^verbatim>\<open>DeleteOp\<close>: the instance it is about, the
  counter value drawn when it was made, and for a save its keyword arguments. Change
  records have Python's default equality, identity; no two of them are made with the
  same counter value, so equality of the values below is identity of the objects.
\<close>

datatype change = SaveOp objref nat kwargs | DeleteOp objref nat

fun change_obj :: "change \<Rightarrow> objref" where
  "change_obj (SaveOp obj n save_kwargs) = obj"
| "change_obj (DeleteOp obj n) = obj"

fun change_counter :: "change \<Rightarrow> nat" where
  "change_counter (SaveOp obj n save_kwargs) = n"
| "change_counter (DeleteOp obj n) = n"

fun change_type :: "change \<Rightarrow> string" where
  "change_type (SaveOp obj n save_kwargs) = ''save''"
| "change_type (DeleteOp obj n) = ''delete''"

definition SaveOp_init :: "objref \<Rightarrow> kwargs \<Rightarrow> world \<Rightarrow> change \<times> world" where
  "SaveOp_init obj save_kwargs w =
     (case next_value (change_counter_seq w) of
        (n, s) \<Rightarrow> (SaveOp obj n save_kwargs, w\<lparr>change_counter_seq := s\<rparr>))"

definition DeleteOp_init :: "objref \<Rightarrow> world \<Rightarrow> change \<times> world" where
  "DeleteOp_init obj w =
     (case next_value (change_counter_seq w) of
        (n, s) \<Rightarrow> (DeleteOp obj n, w\<lparr>change_counter_seq := s\<rparr>))"

text \<open>
  \<^verbatim>\<open>pk\<close> of a change record is a property that reads the pk of its instance when it is
  asked. The attributes \<^verbatim>\<open>obj\<close> and \<^verbatim>\<open>save_kwargs\<close> are not values of type \<open>val\<close>; the
  change log reads \<^verbatim>\<open>pk\<close> and \<^verbatim>\<open>change_counter\<close> only.
\<close>

definition change_getattr :: "heap \<Rightarrow> change \<Rightarrow> string \<Rightarrow> val option" where
  "change_getattr h c k =
     (if k = ''pk'' then Some (pk (h (change_obj c)))
      else if k = ''change_counter'' then Some (VInt (int (change_counter c)))
      else if k = ''change_type'' then Some (VStr (change_type c))
      else None)"

definition change_ops :: "heap \<Rightarrow> change pyops" where
  "change_ops h = \<lparr>getattr = change_getattr h, eq = (=), hashable = (\<lambda>c. True)\<rparr>"

definition is_UniqueTransientValue :: "val \<Rightarrow> bool" where
  "is_UniqueTransientValue v = (case v of VTransient n \<Rightarrow> True | _ \<Rightarrow> False)"

fun apply_change :: "change \<Rightarrow> world \<Rightarrow> world" where
  "apply_change (DeleteOp obj n) w =
     (if pk (heap w obj) = VNone then w
      else db_save obj [] w)"
| "apply_change (SaveOp obj n save_kwargs) w =
     (let w1 = (if is_UniqueTransientValue (pk (heap w obj))
                then w\<lparr>heap := (heap w)(obj := (heap w obj)\<lparr>pk := VNone\<rparr>)\<rparr>
                else w)
      in db_save obj save_kwargs w1)"

section \<open>\<^verbatim>\<open>ChangeLog\<close>\<close>

type_synonym ChangeLog = "(change, nat) ListLookup"

definition ChangeLog_init :: ChangeLog where
  "ChangeLog_init = ListLookup_init [''pk''] change_counter"

text \<open>
  \<^verbatim>\<open>add\<close> accepts any object and validates that it is a
  \<^verbatim>\<open>DjangoModelChange\<close>.
\<close>

datatype pyobject = ModelInstance objref | ChangeRecord change

definition ChangeLog_add :: "heap \<Rightarrow> ChangeLog \<Rightarrow> pyobject \<Rightarrow> unit result \<times> ChangeLog" where
  "ChangeLog_add h self arg =
     (case arg of
        ModelInstance r \<Rightarrow> (validate False [], self)
      | ChangeRecord c \<Rightarrow> ListLookup_add (change_ops h) self c)"

definition ChangeLog_delete :: "ChangeLog \<Rightarrow> pyobject \<Rightarrow> unit result \<times> ChangeLog" where
  "ChangeLog_delete self arg =
     (Inl (Failure (''ERROR 403242323: Entries can not be deleted from change log ''
                      @ ''- instead add a DeleteOp()'')), self)"

text \<open>
  \<^verbatim>\<open>apply_all\<close> in two steps: the list \<^verbatim>\<open>latest_changes_for_each_pk_value\<close> as it
  is after its sort, and the loop that applies it.
\<close>

definition latest_changes_for_each_pk_value :: "ChangeLog \<Rightarrow> change list" where
  "latest_changes_for_each_pk_value self =
     sort_key change_counter
       (map (\<lambda>(pk, changes). last changes)
          (filter (\<lambda>(pk, changes). changes \<noteq> []) (l_index self)))"

definition ChangeLog_apply_all :: "ChangeLog \<Rightarrow> world \<Rightarrow> world" where
  "ChangeLog_apply_all self w =
     foldl (\<lambda>w change. apply_change change w) w (latest_changes_for_each_pk_value self)"

section \<open>\<^verbatim>\<open>InProcessWriteBackCache\<close>\<close>

text \<open>
  \<^verbatim>\<open>is_cacheable\<close> is abstract in the source; the concrete cache's predicate is a
  parameter of \<open>add\<close> and \<open>delete\<close>. An operation returns its outcome, the cache and
  the world as the call leaves them, also when it raises.
\<close>

record 's InProcessWriteBackCache =
  indexes :: "'s index list"
  change_log :: ChangeLog

text \<open>
  The constructor makes the change log, then runs \<^verbatim>\<open>CompositeLookup.__init__\<close>: that
  one calls \<^verbatim>\<open>self.clear()\<close> while the list of members is still empty, which clears
  the new change log and no index, and then takes the members as they are given.
\<close>

definition InProcessWriteBackCache_init :: "'s index list \<Rightarrow> 's InProcessWriteBackCache" where
  "InProcessWriteBackCache_init idxs =
     \<lparr>indexes = idxs, change_log = ListLookup_clear ChangeLog_init\<rparr>"

definition assign_UniqueTransientValue :: "objref \<Rightarrow> world \<Rightarrow> world" where
  "assign_UniqueTransientValue elem w =
     w\<lparr>heap := (heap w)(elem := (heap w elem)\<lparr>pk := VTransient (transient_count w)\<rparr>),
       transient_count := transient_count w + 1\<rparr>"

definition InProcessWriteBackCache_add ::
  "(heap \<Rightarrow> objref \<Rightarrow> bool) \<Rightarrow> ('s::linorder) InProcessWriteBackCache \<Rightarrow> world \<Rightarrow> objref
     \<Rightarrow> unit result \<times> 's InProcessWriteBackCache \<times> world" where
  "InProcessWriteBackCache_add is_cacheable self w elem =
     (case SaveOp_init elem [] w of
        (op, w1) \<Rightarrow>
          (if is_cacheable (heap w1) elem then
             (let w2 = (if pk (heap w1 elem) = VNone
                        then assign_UniqueTransientValue elem w1 else w1)
              in case CompositeLookup_add (index_add (heap w2)) (indexes self) elem of
                   (Inl e, idxs) \<Rightarrow> (Inl e, self\<lparr>indexes := idxs\<rparr>, w2)
                 | (Inr u, idxs) \<Rightarrow>
                     (case ChangeLog_add (heap w2) (change_log self) (ChangeRecord op) of
                        (r, log) \<Rightarrow> (r, self\<lparr>indexes := idxs, change_log := log\<rparr>, w2)))
           else (Inr (), self, apply_change op w1)))"

definition InProcessWriteBackCache_delete ::
  "(heap \<Rightarrow> objref \<Rightarrow> bool) \<Rightarrow> ('s::linorder) InProcessWriteBackCache \<Rightarrow> world \<Rightarrow> objref
     \<Rightarrow> unit result \<times> 's InProcessWriteBackCache \<times> world" where
  "InProcessWriteBackCache_delete is_cacheable self w elem =
     (case DeleteOp_init elem w of
        (op, w1) \<Rightarrow>
          (if is_cacheable (heap w1) elem then
             (case CompositeLookup_delete (index_delete (heap w1)) (indexes self) elem of
                (Inl e, idxs) \<Rightarrow> (Inl e, self\<lparr>indexes := idxs\<rparr>, w1)
              | (Inr u, idxs) \<Rightarrow>
                  (case ChangeLog_add (heap w1) (change_log self) (ChangeRecord op) of
                     (r, log) \<Rightarrow> (r, self\<lparr>indexes := idxs, change_log := log\<rparr>, w1)))
           else (Inr (), self, apply_change op w1)))"

definition flush_changes_to_database ::
  "'s InProcessWriteBackCache \<Rightarrow> world \<Rightarrow> 's InProcessWriteBackCache \<times> world" where
  "flush_changes_to_database self w =
     (let w1 = ChangeLog_apply_all (change_log self) w
      in (self\<lparr>change_log := ListLookup_clear (change_log self)\<rparr>, w1))"

definition InProcessWriteBackCache_clear ::
  "'s InProcessWriteBackCache \<Rightarrow> bool \<Rightarrow> unit result \<times> 's InProcessWriteBackCache" where
  "InProcessWriteBackCache_clear self force =
     (let self1 = self\<lparr>indexes := CompositeLookup_clear index_clear (indexes self)\<rparr>
      in case (if \<not> force then validate_equals 0 (ListLookup_len (change_log self1))
               else Inr ()) of
           Inl e \<Rightarrow> (Inl e, self1)
         | Inr u \<Rightarrow> (Inr (), self1\<lparr>change_log := ListLookup_clear (change_log self1)\<rparr>))"

section \<open>Notions of the specification\<close>

text \<open>
  The parameter names of a lookup match the key attributes exactly: no name twice on
  either side, and the same names.
\<close>

definition names_match :: "parameters \<Rightarrow> string list \<Rightarrow> bool" where
  "names_match parameters key_attributes \<longleftrightarrow>
     distinct (map fst parameters) \<and> distinct key_attributes \<and>
     set (map fst parameters) = set key_attributes"

text \<open>The certain outcomes of a lookup.\<close>

definition certain :: "nat \<Rightarrow> bool" where
  "certain retcode \<longleftrightarrow> retcode = VALUE_FOUND \<or> retcode = VALUE_DOES_NOT_EXIST"

text \<open>
  The records present in an index, and the invariant of section 3 of the
  specification: a record is logged when the change log has a bucket with a change
  record in it under the record's current identity.
\<close>

definition bucket_records :: "(val list \<times> 'e list) list \<Rightarrow> 'e set" where
  "bucket_records buckets = (\<Union>bucket \<in> snd ` set buckets. set bucket)"

definition index_records :: "'s index \<Rightarrow> objref set" where
  "index_records idx = bucket_records (index_buckets idx)"

definition logged :: "ChangeLog \<Rightarrow> heap \<Rightarrow> objref \<Rightarrow> bool" where
  "logged log h r =
     (case map_of (l_index log) [pk (h r)] of None \<Rightarrow> False | Some changes \<Rightarrow> changes \<noteq> [])"

definition indexed_records_logged :: "'s InProcessWriteBackCache \<Rightarrow> world \<Rightarrow> bool" where
  "indexed_records_logged self w \<longleftrightarrow>
     (\<forall>idx \<in> set (indexes self). \<forall>r \<in> index_records idx. logged (change_log self) (heap w) r)"

text \<open>
  The states of a cache between two flushes: it starts with nothing in its indexes and
  an empty change log, and every step is an \<open>add\<close> or a \<open>delete\<close> that returns
  normally. A record that is not cacheable goes straight to the store; the one
  restriction is that such a record is not added while it is present in an index.
\<close>

inductive unflushed ::
  "(heap \<Rightarrow> objref \<Rightarrow> bool) \<Rightarrow> ('s::linorder) InProcessWriteBackCache \<Rightarrow> world \<Rightarrow> bool"
  for is_cacheable :: "heap \<Rightarrow> objref \<Rightarrow> bool" where
  unflushed_init:
    "\<forall>idx \<in> set idxs. index_records idx = {} \<Longrightarrow>
       unflushed is_cacheable (InProcessWriteBackCache_init idxs) w"
| unflushed_add:
    "unflushed is_cacheable self w \<Longrightarrow> is_cacheable (heap w) elem \<Longrightarrow>
       InProcessWriteBackCache_add is_cacheable self w elem = (Inr (), self', w') \<Longrightarrow>
       unflushed is_cacheable self' w'"
| unflushed_delete:
    "unflushed is_cacheable self w \<Longrightarrow> is_cacheable (heap w) elem \<Longrightarrow>
       InProcessWriteBackCache_delete is_cacheable self w elem = (Inr (), self', w') \<Longrightarrow>
       unflushed is_cacheable self' w'"
| unflushed_add_direct:
    "unflushed is_cacheable self w \<Longrightarrow> \<not> is_cacheable (heap w) elem \<Longrightarrow>
       \<forall>idx \<in> set (indexes self). elem \<notin> index_records idx \<Longrightarrow>
       InProcessWriteBackCache_add is_cacheable self w elem = (Inr (), self', w') \<Longrightarrow>
       unflushed is_cacheable self' w'"
| unflushed_delete_direct:
    "unflushed is_cacheable self w \<Longrightarrow> \<not> is_cacheable (heap w) elem \<Longrightarrow>
       InProcessWriteBackCache_delete is_cacheable self w elem = (Inr (), self', w') \<Longrightarrow>
       unflushed is_cacheable self' w'"

text \<open>
  The change logs that the interface of \<^verbatim>\<open>ChangeLog\<close> can build: \<open>delete\<close> always
  raises, so a log is a new one, a cleared one, or one more change record added.
\<close>

inductive ChangeLog_built :: "ChangeLog \<Rightarrow> bool" where
  built_init: "ChangeLog_built ChangeLog_init"
| built_clear: "ChangeLog_built self \<Longrightarrow> ChangeLog_built (ListLookup_clear self)"
| built_add:
    "ChangeLog_built self \<Longrightarrow> ChangeLog_add h self (ChangeRecord c) = (Inr (), self') \<Longrightarrow>
       ChangeLog_built self'"

section \<open>A caller's program\<close>

text \<open>
  The caller's calls on a cache, run one after the other; the run stops at the first
  call that raises.
\<close>

datatype call = Add objref | Delete objref | Flush

fun run_call ::
  "(heap \<Rightarrow> objref \<Rightarrow> bool) \<Rightarrow> ('s::linorder) InProcessWriteBackCache \<times> world \<Rightarrow> call
     \<Rightarrow> unit result \<times> 's InProcessWriteBackCache \<times> world" where
  "run_call is_cacheable (self, w) (Add elem) = InProcessWriteBackCache_add is_cacheable self w elem"
| "run_call is_cacheable (self, w) (Delete elem) =
     InProcessWriteBackCache_delete is_cacheable self w elem"
| "run_call is_cacheable (self, w) Flush = (Inr (), flush_changes_to_database self w)"

fun run_calls ::
  "(heap \<Rightarrow> objref \<Rightarrow> bool) \<Rightarrow> ('s::linorder) InProcessWriteBackCache \<times> world \<Rightarrow> call list
     \<Rightarrow> unit result \<times> 's InProcessWriteBackCache \<times> world" where
  "run_calls is_cacheable (self, w) [] = (Inr (), self, w)"
| "run_calls is_cacheable (self, w) (c # cs) =
     (case run_call is_cacheable (self, w) c of
        (Inl e, self', w') \<Rightarrow> (Inl e, self', w')
      | (Inr u, self', w') \<Rightarrow> run_calls is_cacheable (self', w') cs)"

section \<open>Example data\<close>

text \<open>
  Records 1 and 2 are persisted rows of category x; every other reference is a new
  record, not yet saved, of category y.
\<close>

definition example_heap :: heap where
  "example_heap =
     (\<lambda>r. \<lparr>pk = VNone, attrs = [(''category'', VStr ''y'')]\<rparr>)
       (1 := \<lparr>pk = VInt 1, attrs = [(''category'', VStr ''x'')]\<rparr>,
        2 := \<lparr>pk = VInt 2, attrs = [(''category'', VStr ''x'')]\<rparr>)"

definition example_world :: world where
  "example_world =
     \<lparr>heap = example_heap, change_counter_seq = Sequence_init, transient_count = 0,
      db_calls = [], db_next_pk = 100\<rparr>"

definition example_index :: "(objref, nat) DefaultListLookup" where
  "example_index = DefaultListLookup_init [''category''] (\<lambda>r. r)"

definition example_sorted_index :: "(objref, nat) ListLookup" where
  "example_sorted_index = ListLookup_init [''category''] (\<lambda>r. r)"

definition example_cache :: "nat InProcessWriteBackCache" where
  "example_cache = InProcessWriteBackCache_init [DefaultListLookupIndex example_index]"

definition always_cacheable :: "heap \<Rightarrow> objref \<Rightarrow> bool" where
  "always_cacheable h r = True"

definition never_cacheable :: "heap \<Rightarrow> objref \<Rightarrow> bool" where
  "never_cacheable h r = False"

section \<open>Properties\<close>

lemmas retcode_defs =
  LOOKUP_NOT_SUPPORTED_def VALUE_UNKNOWN_def VALUE_DOES_NOT_EXIST_def VALUE_FOUND_def

lemmas example_defs =
  example_heap_def example_world_def example_index_def example_sorted_index_def
  example_cache_def always_cacheable_def never_cacheable_def
  DefaultListLookup_init_def ListLookup_init_def InProcessWriteBackCache_init_def
  ChangeLog_init_def Sequence_init_def

lemmas model_ops_defs =
  model_ops_def model_getattr_def model_eq_def model_hashable_def

lemma names_match_length: "names_match ps ka \<Longrightarrow> length ps = length ka"
  unfolding names_match_def by (metis distinct_card length_map)




lemma defaultdict_getitem_cases:
  "defaultdict_getitem dflt d k = (b, d') \<Longrightarrow>
     (map_of d k = Some b \<and> d' = d) \<or> (map_of d k = None \<and> b = dflt \<and> d' = d @ [(k, dflt)])"
  by (auto simp: defaultdict_getitem_def split: option.splits)

subsection \<open>Lookup after add\<close>




lemma set_SortedKeyList_add [simp]: "set (SortedKeyList_add f v ss) = insert v (set ss)"
  by (induction ss) auto







text \<open>
  Claim C10. On the list index a lookup with exactly the key attributes for a key that
  has no bucket is not read-only: it leaves an empty bucket under that key at the end of
  the dictionary, so the length of the index grows by one, and a delete of a record with
  that key, which raised the missing-bucket error before the lookup, returns normally
  after it.
\<close>

theorem lookup_inserts_empty_bucket:
  assumes nm: "names_match parameters (d_key_attributes self)"
    and key: "those (map (map_of parameters) (d_key_attributes self)) = Some key"
    and missing: "map_of (d_index self) key = None"
    and elem: "DefaultListLookup_key ops self elem = Some key"
  shows "(case DefaultListLookup_lookup caa self parameters of
           (res, self') \<Rightarrow>
             self' \<noteq> self \<and>
             d_index self' = d_index self @ [(key, [])] \<and>
             DefaultListLookup_len self' = DefaultListLookup_len self + 1 \<and>
             fst (DefaultListLookup_delete ops self' elem) = Inr ()) \<and>
         fst (DefaultListLookup_delete ops self elem) = Inl (Failure ''ERROR 934923432'')"
proof -
  have len: "length parameters = length (d_key_attributes self)"
    using nm by (rule names_match_length)
  have elem': "DefaultListLookup_key ops (self\<lparr>d_index := d_index self @ [(key, [])]\<rparr>) elem
                 = Some key"
    using elem by (simp add: DefaultListLookup_key_def)
  have neq: "self\<lparr>d_index := d_index self @ [(key, [])]\<rparr> \<noteq> self"
    by (metis DefaultListLookup.select_convs(3) DefaultListLookup.surjective
        DefaultListLookup.update_convs(3) append_self_conv list.distinct(1))
  show ?thesis
    using len key missing elem elem' neq
    by (simp add: DefaultListLookup_lookup_def defaultdict_getitem_def DefaultListLookup_len_def
        DefaultListLookup_delete_def validate_def map_add_def)
qed

theorem lookup_inserts_empty_bucket_witness:
  "names_match [(''category'', VStr ''x'')] (d_key_attributes example_index) \<and>
   those (map (map_of [(''category'', VStr ''x'')]) (d_key_attributes example_index))
     = Some [VStr ''x''] \<and>
   map_of (d_index example_index) [VStr ''x''] = None \<and>
   DefaultListLookup_key (model_ops example_heap) example_index 1 = Some [VStr ''x''] \<and>
   d_index (snd (DefaultListLookup_lookup LookupContainer_can_answer_authoritatively
                   example_index [(''category'', VStr ''x'')])) = [([VStr ''x''], [])] \<and>
   DefaultListLookup_len (snd (DefaultListLookup_lookup LookupContainer_can_answer_authoritatively
                   example_index [(''category'', VStr ''x'')])) = 1 \<and>
   fst (DefaultListLookup_delete (model_ops example_heap)
          (snd (DefaultListLookup_lookup LookupContainer_can_answer_authoritatively
                   example_index [(''category'', VStr ''x'')])) 1) = Inr () \<and>
   fst (DefaultListLookup_delete (model_ops example_heap) example_index 1)
     = Inl (Failure ''ERROR 934923432'')"
proof -
  have nm: "names_match [(''category'', VStr ''x'')] (d_key_attributes example_index)"
    by (simp add: names_match_def example_defs)
  have key: "those (map (map_of [(''category'', VStr ''x'')]) (d_key_attributes example_index))
     = Some [VStr ''x'']"
    by (simp add: example_defs)
  have missing: "map_of (d_index example_index) [VStr ''x''] = None"
    by (simp add: example_defs)
  have elem: "DefaultListLookup_key (model_ops example_heap) example_index 1 = Some [VStr ''x'']"
    by (simp add: DefaultListLookup_key_def model_ops_defs example_defs)
  show ?thesis
    using lookup_inserts_empty_bucket [OF nm key missing elem,
        of LookupContainer_can_answer_authoritatively] nm key missing elem
    by (simp add: example_defs DefaultListLookup_len_def split: prod.splits)
qed

subsection \<open>Deleting what was never added\<close>

lemmas DefaultListLookup_eval =
  DefaultListLookup_add_def DefaultListLookup_delete_def DefaultListLookup_key_def
  DefaultListLookup_lookup_def DefaultListLookup_bulk_add_def DefaultListLookup_len_def
  DefaultListLookup_sort_all_def DefaultListLookup_clear_def defaultdict_getitem_def
  validate_def

lemmas ListLookup_eval =
  ListLookup_add_def ListLookup_delete_def ListLookup_key_def ListLookup_lookup_def
  ListLookup_len_def ListLookup_clear_def SortedSet_add_def SortedSet_discard_def
  SortedSet_remove_def SortedSet_contains_def




subsection \<open>The fast path of \<^verbatim>\<open>bulk_add\<close>\<close>

text \<open>
  Claim C4. The claim is right and the fast path is not: on an empty list index
  \<^verbatim>\<open>bulk_add([r, r])\<close> appends the record twice and sorts, where \<open>add\<close> called
  once per record removes the equal record before it appends. The two indexes answer the
  same lookup with different payloads.
\<close>

theorem bulk_add_fast_path_keeps_duplicates:
  "DefaultListLookup_bulk_add (model_ops example_heap) example_index [1, 1]
     = (Inr (), example_index\<lparr>d_index := [([VStr ''x''], [1, 1])]\<rparr>) \<and>
   DefaultListLookup_add_each (model_ops example_heap) example_index [1, 1]
     = (Inr (), example_index\<lparr>d_index := [([VStr ''x''], [1])]\<rparr>) \<and>
   fst (DefaultListLookup_lookup LookupContainer_can_answer_authoritatively
          (example_index\<lparr>d_index := [([VStr ''x''], [1, 1])]\<rparr>) [(''category'', VStr ''x'')])
     = (VALUE_FOUND, Some [1, 1]) \<and>
   fst (DefaultListLookup_lookup LookupContainer_can_answer_authoritatively
          (example_index\<lparr>d_index := [([VStr ''x''], [1])]\<rparr>) [(''category'', VStr ''x'')])
     = (VALUE_FOUND, Some [1])"
  by (simp add: DefaultListLookup_eval model_ops_defs example_defs)

subsection \<open>Composite lookup\<close>

lemma CompositeLookup_lookup_loop_uncertain:
  assumes "\<forall>idx \<in> set members. \<not> certain (fst (fst (lk idx ps)))"
  shows "CompositeLookup_lookup_loop lk retcode members ps =
           ((fold max (map (\<lambda>idx. fst (fst (lk idx ps))) members) retcode, None),
            map (\<lambda>idx. snd (lk idx ps)) members)"
  using assms
proof (induction members arbitrary: retcode)
  case Nil
  then show ?case by simp
next
  case (Cons idx rest)
  obtain c p idx' where lk: "lk idx ps = ((c, p), idx')"
    by (metis prod.collapse)
  have "\<not> certain c" using Cons.prems lk by simp
  then show ?case
    using Cons lk by (simp add: certain_def max.commute)
qed

lemma CompositeLookup_lookup_loop_certain:
  assumes "\<forall>idx \<in> set pre. \<not> certain (fst (fst (lk idx ps)))"
    and "certain (fst (fst (lk m ps)))"
  shows "CompositeLookup_lookup_loop lk retcode (pre @ m # post) ps =
           (fst (lk m ps), map (\<lambda>idx. snd (lk idx ps)) pre @ snd (lk m ps) # post)"
  using assms
proof (induction pre arbitrary: retcode)
  case Nil
  obtain c p m' where lk: "lk m ps = ((c, p), m')"
    by (metis prod.collapse)
  then show ?case using Nil by (simp add: certain_def)
next
  case (Cons idx pre)
  obtain c p idx' where lk: "lk idx ps = ((c, p), idx')"
    by (metis prod.collapse)
  have "\<not> certain c" using Cons.prems lk by simp
  then show ?case
    using Cons lk by (simp add: certain_def)
qed

lemma fold_max_Max:
  fixes r :: nat
  shows "fold max xs r = Max (insert r (set xs))"
  by (metis Max.set_eq_fold list.simps(15))

text \<open>
  Claim C6. With the members split at the first one whose own lookup answers
  \<open>VALUE_FOUND\<close> or \<open>VALUE_DOES_NOT_EXIST\<close>, the composite returns that member's
  answer, the members before it are as their lookups left them, and the members after
  it are untouched. When no member is certain the composite returns, with no payload,
  the maximum of the members' codes (\<open>LOOKUP_NOT_SUPPORTED\<close> when it has no member),
  and every member has been consulted.
\<close>

theorem CompositeLookup_lookup_first_certain:
  "(members = pre @ m # post \<and>
      (\<forall>idx \<in> set pre. \<not> certain (fst (fst (lk idx ps)))) \<and>
      certain (fst (fst (lk m ps))) \<longrightarrow>
      CompositeLookup_lookup lk members ps =
        (fst (lk m ps), map (\<lambda>idx. snd (lk idx ps)) pre @ snd (lk m ps) # post)) \<and>
   ((\<forall>idx \<in> set members. \<not> certain (fst (fst (lk idx ps)))) \<and> members \<noteq> [] \<longrightarrow>
      CompositeLookup_lookup lk members ps =
        ((Max ((\<lambda>idx. fst (fst (lk idx ps))) ` set members), None),
         map (\<lambda>idx. snd (lk idx ps)) members)) \<and>
   CompositeLookup_lookup lk [] ps = ((LOOKUP_NOT_SUPPORTED, None), [])"
proof (intro conjI impI)
  assume "members = pre @ m # post \<and>
      (\<forall>idx \<in> set pre. \<not> certain (fst (fst (lk idx ps)))) \<and>
      certain (fst (fst (lk m ps)))"
  then show "CompositeLookup_lookup lk members ps =
        (fst (lk m ps), map (\<lambda>idx. snd (lk idx ps)) pre @ snd (lk m ps) # post)"
    using CompositeLookup_lookup_loop_certain[of pre lk ps m LOOKUP_NOT_SUPPORTED post]
    by (simp add: CompositeLookup_lookup_def)
next
  assume a: "(\<forall>idx \<in> set members. \<not> certain (fst (fst (lk idx ps)))) \<and> members \<noteq> []"
  let ?codes = "map (\<lambda>idx. fst (fst (lk idx ps))) members"
  have "fold max ?codes LOOKUP_NOT_SUPPORTED = Max (insert LOOKUP_NOT_SUPPORTED (set ?codes))"
    by (rule fold_max_Max)
  also have "\<dots> = Max (set ?codes)"
    using a by (simp add: LOOKUP_NOT_SUPPORTED_def)
  finally have "fold max ?codes LOOKUP_NOT_SUPPORTED =
      Max ((\<lambda>idx. fst (fst (lk idx ps))) ` set members)"
    by simp
  then show "CompositeLookup_lookup lk members ps =
        ((Max ((\<lambda>idx. fst (fst (lk idx ps))) ` set members), None),
         map (\<lambda>idx. snd (lk idx ps)) members)"
    using CompositeLookup_lookup_loop_uncertain[of members lk ps LOOKUP_NOT_SUPPORTED] a
    by (simp add: CompositeLookup_lookup_def)
next
  show "CompositeLookup_lookup lk [] ps = ((LOOKUP_NOT_SUPPORTED, None), [])"
    by (simp add: CompositeLookup_lookup_def)
qed

theorem CompositeLookup_lookup_first_certain_witness:
  "\<not> certain (fst (fst (index_lookup
        (DefaultListLookupIndex (DefaultListLookup_init [''pk''] (\<lambda>r. r)))
        [(''category'', VStr ''x'')]))) \<and>
   certain (fst (fst (index_lookup
        (DefaultListLookupIndex (example_index\<lparr>d_index := [([VStr ''x''], [1])]\<rparr>))
        [(''category'', VStr ''x'')]))) \<and>
   \<not> certain (fst (fst (index_lookup (DefaultListLookupIndex example_index)
        [(''category'', VStr ''x'')]))) \<and>
   CompositeLookup_lookup index_lookup
     [DefaultListLookupIndex (DefaultListLookup_init [''pk''] (\<lambda>r. r)),
      DefaultListLookupIndex (example_index\<lparr>d_index := [([VStr ''x''], [1])]\<rparr>),
      DefaultListLookupIndex example_index]
     [(''category'', VStr ''x'')]
   = ((VALUE_FOUND, Some [1]),
      [DefaultListLookupIndex (DefaultListLookup_init [''pk''] (\<lambda>r. r)),
       DefaultListLookupIndex (example_index\<lparr>d_index := [([VStr ''x''], [1])]\<rparr>),
       DefaultListLookupIndex example_index]) \<and>
   CompositeLookup_lookup index_lookup
     [DefaultListLookupIndex (DefaultListLookup_init [''pk''] (\<lambda>r. r)),
      DefaultListLookupIndex example_index]
     [(''category'', VStr ''x'')]
   = ((VALUE_UNKNOWN, None),
      [DefaultListLookupIndex (DefaultListLookup_init [''pk''] (\<lambda>r. r)),
       DefaultListLookupIndex (example_index\<lparr>d_index := [([VStr ''x''], [])]\<rparr>)])"
proof -
  let ?ps = "[(''category'', VStr ''x'')]"
  let ?m0 = "DefaultListLookupIndex (DefaultListLookup_init [''pk''] (\<lambda>r. r)) :: nat index"
  let ?m1 = "DefaultListLookupIndex (example_index\<lparr>d_index := [([VStr ''x''], [1])]\<rparr>)"
  let ?m2 = "DefaultListLookupIndex example_index"
  have l0: "index_lookup ?m0 ?ps = ((LOOKUP_NOT_SUPPORTED, None), ?m0)"
    and l1: "index_lookup ?m1 ?ps = ((VALUE_FOUND, Some [1]), ?m1)"
    and l2: "index_lookup ?m2 ?ps = ((VALUE_UNKNOWN, None),
               DefaultListLookupIndex (example_index\<lparr>d_index := [([VStr ''x''], [])]\<rparr>))"
    by (simp_all add: DefaultListLookup_eval example_defs
        LookupContainer_can_answer_authoritatively_def)
  have c0: "\<not> certain (fst (fst (index_lookup ?m0 ?ps)))"
    and c1: "certain (fst (fst (index_lookup ?m1 ?ps)))"
    and c2: "\<not> certain (fst (fst (index_lookup ?m2 ?ps)))"
    by (simp_all only: l0 l1 l2 fst_conv certain_def retcode_defs, simp_all)
  have p0: "\<forall>idx \<in> set [?m0]. \<not> certain (fst (fst (index_lookup idx ?ps)))"
    using c0 by simp
  have p1: "\<forall>idx \<in> set [?m0, ?m2]. \<not> certain (fst (fst (index_lookup idx ?ps)))"
    using c0 c2 by simp
  have mx: "Max ((\<lambda>idx. fst (fst (index_lookup idx ?ps))) ` set [?m0, ?m2]) = VALUE_UNKNOWN"
    using l0 l2 by (simp add: retcode_defs del: index_lookup.simps)
  note t1 = CompositeLookup_lookup_first_certain
      [of "[?m0, ?m1, ?m2]" "[?m0]" ?m1 "[?m2]" index_lookup ?ps]
  note t2 = CompositeLookup_lookup_first_certain
      [of "[?m0, ?m2]" "[]" ?m1 "[]" index_lookup ?ps]
  have r1: "CompositeLookup_lookup index_lookup [?m0, ?m1, ?m2] ?ps
              = ((VALUE_FOUND, Some [1]), [?m0, ?m1, ?m2])"
    using t1 p0 c1 l0 l1 by (simp del: index_lookup.simps)
  have r2: "CompositeLookup_lookup index_lookup [?m0, ?m2] ?ps
              = ((VALUE_UNKNOWN, None),
                 [?m0, DefaultListLookupIndex (example_index\<lparr>d_index := [([VStr ''x''], [])]\<rparr>)])"
    using t2 p1 mx l0 l2 by (simp del: index_lookup.simps)
  show ?thesis
    using c0 c1 c2 r1 r2 by (simp del: index_lookup.simps)
qed

subsection \<open>Clearing a cache with changes that were not flushed\<close>

text \<open>
  Claim C7. When the change log has a bucket, \<open>clear\<close> with \<open>force=False\<close>
  raises, and the change log is after the call what it was before it.
\<close>

theorem clear_unflushed_fails:
  assumes "l_index (change_log self) \<noteq> []"
  shows "(\<exists>e. fst (InProcessWriteBackCache_clear self False) = Inl e) \<and>
         change_log (snd (InProcessWriteBackCache_clear self False)) = change_log self"
  using assms
  by (simp add: InProcessWriteBackCache_clear_def validate_equals_def ListLookup_len_def Let_def)

theorem clear_unflushed_fails_witness:
  "l_index (change_log (example_cache\<lparr>change_log :=
       ChangeLog_init\<lparr>l_index := [([VTransient 0], [SaveOp 3 1 []])]\<rparr>\<rparr>)) \<noteq> [] \<and>
   fst (InProcessWriteBackCache_clear (example_cache\<lparr>change_log :=
       ChangeLog_init\<lparr>l_index := [([VTransient 0], [SaveOp 3 1 []])]\<rparr>\<rparr>) False)
     = Inl (Failure ''validate_equals'') \<and>
   l_index (change_log (snd (InProcessWriteBackCache_clear (example_cache\<lparr>change_log :=
       ChangeLog_init\<lparr>l_index := [([VTransient 0], [SaveOp 3 1 []])]\<rparr>\<rparr>) False)))
     = [([VTransient 0], [SaveOp 3 1 []])]"
proof -
  have ne: "l_index (change_log (example_cache\<lparr>change_log :=
       ChangeLog_init\<lparr>l_index := [([VTransient 0], [SaveOp 3 1 []])]\<rparr>\<rparr>)) \<noteq> []"
    by simp
  have f: "fst (InProcessWriteBackCache_clear (example_cache\<lparr>change_log :=
       ChangeLog_init\<lparr>l_index := [([VTransient 0], [SaveOp 3 1 []])]\<rparr>\<rparr>) False)
     = Inl (Failure ''validate_equals'')"
    by (simp add: InProcessWriteBackCache_clear_def validate_equals_def ListLookup_len_def
        Let_def)
  show ?thesis
    using clear_unflushed_fails [OF ne] ne f by simp
qed

subsection \<open>What a delete change applies to the store\<close>

lemmas cache_eval =
  InProcessWriteBackCache_add_def InProcessWriteBackCache_delete_def
  flush_changes_to_database_def CompositeLookup_add_def CompositeLookup_delete_def
  SaveOp_init_def DeleteOp_init_def next_value_def assign_UniqueTransientValue_def
  ChangeLog_add_def ChangeLog_apply_all_def latest_changes_for_each_pk_value_def
  change_ops_def change_getattr_def db_save_def db_delete_def is_UniqueTransientValue_def
  Let_def


text \<open>
  Claim C1. The claim is right and \<^verbatim>\<open>DeleteOp.apply_change\<close> is not: for a record with a
  real identity it calls \<^verbatim>\<open>self.obj.save()\<close>. Record 1 is a persisted row. Added,
  deleted and flushed through the cache, or deleted while it is not cacheable, the only
  call the store receives is a save of record 1; \<^verbatim>\<open>DjangoReadWriteInterface.delete\<close>
  is the path that does call the store's delete.
\<close>

theorem delete_change_saves_record:
  "fst (run_calls always_cacheable (example_cache, example_world) [Add 1, Delete 1, Flush])
     = Inr () \<and>
   db_calls (snd (snd (run_calls always_cacheable (example_cache, example_world)
                         [Add 1, Delete 1, Flush]))) = [SaveCall 1 []] \<and>
   fst (run_calls never_cacheable (example_cache, example_world) [Delete 1]) = Inr () \<and>
   db_calls (snd (snd (run_calls never_cacheable (example_cache, example_world) [Delete 1])))
     = [SaveCall 1 []] \<and>
   db_calls (DjangoReadWriteInterface_delete 1 example_world) = [DeleteCall 1]"
  by (simp add: cache_eval DefaultListLookup_eval ListLookup_eval model_ops_defs example_defs
      DjangoReadWriteInterface_delete_def)

text \<open>
  Claim C2. The claim is right and the code is not: record 3 has no identity, the cache
  gives it a \<^verbatim>\<open>UniqueTransientValue\<close> on \<open>add\<close>, and \<^verbatim>\<open>DeleteOp.apply_change\<close>
  tests \<^verbatim>\<open>self.obj.pk is None\<close>, which the placeholder is not. After add, delete and
  flush the store has received a save of the record, whose pk is still the placeholder.
\<close>

theorem created_then_deleted_reaches_store:
  "fst (run_calls always_cacheable (example_cache, example_world) [Add 3, Delete 3, Flush])
     = Inr () \<and>
   db_calls (snd (snd (run_calls always_cacheable (example_cache, example_world)
                         [Add 3, Delete 3, Flush]))) = [SaveCall 3 []] \<and>
   pk (heap (snd (snd (run_calls always_cacheable (example_cache, example_world)
                         [Add 3, Delete 3, Flush]))) 3) = VTransient 0 \<and>
   pk (heap example_world 3) = VNone"
  by (simp add: cache_eval DefaultListLookup_eval ListLookup_eval model_ops_defs example_defs)

subsection \<open>The change log applies the latest change of each identity\<close>

lemma sorted_SortedKeyList_add:
  "sorted (map f ss) \<Longrightarrow> sorted (map f (SortedKeyList_add f v ss))"
  by (induction ss) auto

lemma SortedKeyList_remove_subseq:
  "SortedKeyList_remove ops f v ss = Some ss' \<Longrightarrow> set ss' \<subseteq> set ss"
  by (induction ss arbitrary: ss') (auto split: if_splits)

lemma sorted_SortedKeyList_remove:
  "SortedKeyList_remove ops f v ss = Some ss' \<Longrightarrow> sorted (map f ss) \<Longrightarrow> sorted (map f ss')"
proof (induction ss arbitrary: ss')
  case Nil
  then show ?case by simp
next
  case (Cons a ss)
  show ?case
  proof (cases "f a = f v \<and> eq ops a v")
    case True
    then show ?thesis using Cons.prems by auto
  next
    case False
    then obtain t where t: "SortedKeyList_remove ops f v ss = Some t" "ss' = a # t"
      using Cons.prems(1) by auto
    have "sorted (map f t)" using Cons.IH[OF t(1)] Cons.prems(2) by simp
    moreover have "set t \<subseteq> set ss" using SortedKeyList_remove_subseq[OF t(1)] .
    ultimately show ?thesis using Cons.prems(2) t(2) by auto
  qed
qed

lemma ListLookup_add_map_of:
  assumes "ListLookup_add ops l r = (Inr (), l')"
  shows "\<exists>key b1 b2. ListLookup_key ops l r = Some key \<and>
           SortedSet_discard ops (l_sort_key l)
             (case map_of (l_index l) key of None \<Rightarrow> [] | Some b \<Rightarrow> b) r = Inr b1 \<and>
           SortedSet_add ops (l_sort_key l) b1 r = Inr b2 \<and>
           map_of (l_index l') = (map_of (l_index l))(key \<mapsto> b2) \<and>
           fst ` set (l_index l') = insert key (fst ` set (l_index l)) \<and>
           (distinct (map fst (l_index l)) \<longrightarrow> distinct (map fst (l_index l'))) \<and>
           l_sort_key l' = l_sort_key l \<and> l_key_attributes l' = l_key_attributes l"
proof -
  obtain key where key: "ListLookup_key ops l r = Some key"
    using assms by (auto simp: ListLookup_add_def split: option.splits)
  obtain bucket index1 where dd: "defaultdict_getitem [] (l_index l) key = (bucket, index1)"
    by (cases "defaultdict_getitem ([]::'a list) (l_index l) key") auto
  obtain b1 where b1: "SortedSet_discard ops (l_sort_key l) bucket r = Inr b1"
    using assms key dd by (auto simp: ListLookup_add_def split: sum.splits)
  obtain b2 where b2: "SortedSet_add ops (l_sort_key l) b1 r = Inr b2"
    using assms key dd b1 by (auto simp: ListLookup_add_def split: sum.splits)
  have l': "l' = l\<lparr>l_index := AList.update key b2 index1\<rparr>"
    using assms key dd b1 b2 by (simp add: ListLookup_add_def)
  have bucket: "bucket = (case map_of (l_index l) key of None \<Rightarrow> [] | Some b \<Rightarrow> b)"
    using defaultdict_getitem_cases[OF dd] by auto
  have m: "map_of (AList.update key b2 index1) = (map_of (l_index l))(key \<mapsto> b2)"
    using defaultdict_getitem_cases[OF dd]
    by (auto simp: update_conv' map_add_def fun_eq_iff split: option.splits)
  have k: "fst ` set (AList.update key b2 index1) = insert key (fst ` set (l_index l))"
    using defaultdict_getitem_cases[OF dd] by (auto simp: dom_update)
  have d: "distinct (map fst (l_index l)) \<Longrightarrow> distinct (map fst (AList.update key b2 index1))"
    using defaultdict_getitem_cases[OF dd]
    by (auto simp: distinct_update map_of_eq_None_iff)
  show ?thesis
    using key b1 b2 l' bucket m k d by auto
qed

lemma SortedSet_ops_sorted:
  assumes "SortedSet_discard ops f b r = Inr b1" and "SortedSet_add ops f b1 r = Inr b2"
    and "sorted (map f b)"
  shows "sorted (map f b2) \<and> b2 \<noteq> []"
proof -
  have s1: "sorted (map f b1)"
    using assms(1,3) sorted_SortedKeyList_remove[of ops f r b]
    by (auto simp: SortedSet_discard_def split: if_splits option.splits)
  have "sorted (map f b2)"
    using assms(2) s1 sorted_SortedKeyList_add[of f b1 r]
    by (auto simp: SortedSet_add_def split: if_splits)
  moreover have "b2 \<noteq> []"
    using assms(2)
    by (auto simp: SortedSet_add_def SortedSet_contains_def split: if_splits)
      (metis list.distinct(1) list.set_cases set_SortedKeyList_add insertI1)
  ultimately show ?thesis by simp
qed

lemma ChangeLog_built_wf:
  assumes "ChangeLog_built log"
  shows "l_sort_key log = change_counter \<and> l_key_attributes log = [''pk''] \<and>
         distinct (map fst (l_index log)) \<and>
         (\<forall>k b. map_of (l_index log) k = Some b \<longrightarrow> b \<noteq> [] \<and> sorted (map change_counter b))"
  using assms
proof (induction rule: ChangeLog_built.induct)
  case built_init
  then show ?case by (simp add: ChangeLog_init_def ListLookup_init_def)
next
  case (built_clear self)
  then show ?case by (simp add: ListLookup_clear_def)
next
  case (built_add self h c self')
  have add: "ListLookup_add (change_ops h) self c = (Inr (), self')"
    using built_add.hyps(2) by (simp add: ChangeLog_add_def)
  obtain key b1 b2 where
    m: "SortedSet_discard (change_ops h) (l_sort_key self)
          (case map_of (l_index self) key of None \<Rightarrow> [] | Some b \<Rightarrow> b) c = Inr b1"
      "SortedSet_add (change_ops h) (l_sort_key self) b1 c = Inr b2"
      "map_of (l_index self') = (map_of (l_index self))(key \<mapsto> b2)"
      "distinct (map fst (l_index self)) \<longrightarrow> distinct (map fst (l_index self'))"
      "l_sort_key self' = l_sort_key self" "l_key_attributes self' = l_key_attributes self"
    using ListLookup_add_map_of[OF add] by blast
  have old: "sorted (map change_counter
               (case map_of (l_index self) key of None \<Rightarrow> [] | Some b \<Rightarrow> b))"
    using built_add.IH by (auto split: option.splits)
  have new: "sorted (map change_counter b2) \<and> b2 \<noteq> []"
    using SortedSet_ops_sorted[OF m(1) m(2)] old built_add.IH by simp
  show ?case
    using built_add.IH m(3,4,5,6) new by auto
qed

lemma sorted_map_last:
  "sorted (map f xs) \<Longrightarrow> c \<in> set xs \<Longrightarrow> f c \<le> (f (last xs) :: 'b::linorder)"
proof (induction xs)
  case Nil
  then show ?case by simp
next
  case (Cons a xs)
  then show ?case by (cases "xs = []") auto
qed

text \<open>
  Claim C3. For a change log built through the interface of \<^verbatim>\<open>ChangeLog\<close>, with one
  bucket for each identity: \<^verbatim>\<open>apply_all\<close> applies as many change records as there are
  identities, namely the last change record of each bucket, which has the highest counter
  in its bucket; it applies them in ascending order of their counters.
\<close>

theorem apply_all_latest_per_identity:
  assumes "ChangeLog_built log"
  shows "distinct (map fst (l_index log)) \<and>
         length (latest_changes_for_each_pk_value log) = card (fst ` set (l_index log)) \<and>
         mset (latest_changes_for_each_pk_value log)
           = mset (map (\<lambda>(pk, changes). last changes) (l_index log)) \<and>
         (\<forall>(pk, changes) \<in> set (l_index log). changes \<noteq> [] \<and>
            (\<forall>c \<in> set changes. change_counter c \<le> change_counter (last changes))) \<and>
         sorted (map change_counter (latest_changes_for_each_pk_value log)) \<and>
         ChangeLog_apply_all log w
           = foldl (\<lambda>w change. apply_change change w) w (latest_changes_for_each_pk_value log)"
proof -
  have wf: "distinct (map fst (l_index log))"
    "\<And>k b. map_of (l_index log) k = Some b \<Longrightarrow> b \<noteq> [] \<and> sorted (map change_counter b)"
    using ChangeLog_built_wf[OF assms] by auto
  have buckets: "b \<noteq> [] \<and> sorted (map change_counter b)" if "(k, b) \<in> set (l_index log)" for k b
    using wf(2)[of k b] wf(1) that by simp
  have all: "filter (\<lambda>(pk, changes). changes \<noteq> []) (l_index log) = l_index log"
    using buckets by (auto simp: filter_id_conv)
  have latest: "latest_changes_for_each_pk_value log
      = sort_key change_counter (map (\<lambda>(pk, changes). last changes) (l_index log))"
    by (simp add: latest_changes_for_each_pk_value_def all)
  have "card (fst ` set (l_index log)) = length (l_index log)"
    using wf(1) by (metis distinct_card length_map set_map)
  moreover have "\<forall>(pk, changes) \<in> set (l_index log). changes \<noteq> [] \<and>
            (\<forall>c \<in> set changes. change_counter c \<le> change_counter (last changes))"
    using buckets sorted_map_last by fastforce
  ultimately show ?thesis
    using wf(1) latest by (simp add: ChangeLog_apply_all_def)
qed

theorem apply_all_latest_per_identity_witness:
  "ChangeLog_built (ChangeLog_init\<lparr>l_index :=
      [([VInt 1], [SaveOp 1 1 [], DeleteOp 1 3]), ([VInt 2], [SaveOp 2 2 []])]\<rparr>) \<and>
   latest_changes_for_each_pk_value (ChangeLog_init\<lparr>l_index :=
      [([VInt 1], [SaveOp 1 1 [], DeleteOp 1 3]), ([VInt 2], [SaveOp 2 2 []])]\<rparr>)
     = [SaveOp 2 2 [], DeleteOp 1 3] \<and>
   card (fst ` set (l_index (ChangeLog_init\<lparr>l_index :=
      [([VInt 1], [SaveOp 1 1 [], DeleteOp 1 3]), ([VInt 2], [SaveOp 2 2 []])]\<rparr>))) = 2 \<and>
   db_calls (ChangeLog_apply_all (ChangeLog_init\<lparr>l_index :=
      [([VInt 1], [SaveOp 1 1 [], DeleteOp 1 3]), ([VInt 2], [SaveOp 2 2 []])]\<rparr>) example_world)
     = [SaveCall 2 [], SaveCall 1 []]"
proof -
  let ?L1 = "ChangeLog_init\<lparr>l_index := [([VInt 1], [SaveOp 1 1 []])]\<rparr>"
  let ?L2 = "ChangeLog_init\<lparr>l_index :=
      [([VInt 1], [SaveOp 1 1 []]), ([VInt 2], [SaveOp 2 2 []])]\<rparr>"
  let ?L3 = "ChangeLog_init\<lparr>l_index :=
      [([VInt 1], [SaveOp 1 1 [], DeleteOp 1 3]), ([VInt 2], [SaveOp 2 2 []])]\<rparr>"
  have e1: "ChangeLog_add example_heap ChangeLog_init (ChangeRecord (SaveOp 1 1 []))
              = (Inr (), ?L1)"
    by (simp add: cache_eval ListLookup_eval defaultdict_getitem_def example_defs)
  have e2: "ChangeLog_add example_heap ?L1 (ChangeRecord (SaveOp 2 2 [])) = (Inr (), ?L2)"
    by (simp add: cache_eval ListLookup_eval defaultdict_getitem_def example_defs)
  have e3: "ChangeLog_add example_heap ?L2 (ChangeRecord (DeleteOp 1 3)) = (Inr (), ?L3)"
    by (simp add: cache_eval ListLookup_eval defaultdict_getitem_def example_defs)
  have b: "ChangeLog_built ?L3"
    using built_add[OF built_add[OF built_add[OF built_init e1] e2] e3] .
  have latest: "latest_changes_for_each_pk_value ?L3 = [SaveOp 2 2 [], DeleteOp 1 3]"
    by (simp add: latest_changes_for_each_pk_value_def)
  have calls: "db_calls (foldl (\<lambda>w change. apply_change change w) example_world
                  [SaveOp 2 2 [], DeleteOp 1 3]) = [SaveCall 2 [], SaveCall 1 []]"
    by (simp add: cache_eval example_defs)
  show ?thesis
    using apply_all_latest_per_identity[OF b, of example_world] b latest calls
    by simp
qed

subsection \<open>Indexed records and the change log\<close>

lemma bucket_records_update:
  "bucket_records (AList.update key v al) \<subseteq> set v \<union> bucket_records al"
  unfolding bucket_records_def by (induction al) auto

lemma bucket_records_map_of:
  "map_of al key = Some bucket \<Longrightarrow> set bucket \<subseteq> bucket_records al"
  unfolding bucket_records_def by (force dest!: map_of_SomeD)

lemma bucket_records_defaultdict_getitem:
  assumes "defaultdict_getitem [] al key = (bucket, index1)"
  shows "set bucket \<subseteq> bucket_records al" and "bucket_records index1 = bucket_records al"
proof -
  from defaultdict_getitem_cases[OF assms]
  show "set bucket \<subseteq> bucket_records al"
    using bucket_records_map_of[of al key bucket] by auto
  from defaultdict_getitem_cases[OF assms]
  show "bucket_records index1 = bucket_records al"
    by (force simp: bucket_records_def)
qed

lemma list_remove_subset: "list_remove e x xs = Some ys \<Longrightarrow> set ys \<subseteq> set xs"
  by (induction xs arbitrary: ys) (auto split: if_splits)

lemma DefaultListLookup_add_records:
  "bucket_records (d_index (snd (DefaultListLookup_add ops d elem)))
     \<subseteq> insert elem (bucket_records (d_index d))"
proof (cases "DefaultListLookup_key ops d elem")
  case None
  then show ?thesis by (auto simp: DefaultListLookup_add_def)
next
  case (Some key)
  obtain bucket index1 where dd: "defaultdict_getitem [] (d_index d) key = (bucket, index1)"
    by (cases "defaultdict_getitem ([]::'a list) (d_index d) key") auto
  define removed where
    "removed = (case list_remove (eq ops) elem bucket of None \<Rightarrow> bucket | Some b \<Rightarrow> b)"
  define new where "new = sort_key (d_sort_key d) (removed @ [elem])"
  have "set removed \<subseteq> set bucket"
    using list_remove_subset[of "eq ops" elem bucket]
    by (auto simp: removed_def split: option.splits)
  then have n: "set new \<subseteq> insert elem (set bucket)"
    by (auto simp: new_def)
  have e: "d_index (snd (DefaultListLookup_add ops d elem)) = AList.update key new index1"
    using Some dd by (simp add: DefaultListLookup_add_def removed_def new_def Let_def)
  have "bucket_records (AList.update key new index1) \<subseteq> insert elem (bucket_records (d_index d))"
    using bucket_records_update[of key new index1] bucket_records_defaultdict_getitem[OF dd] n
    by blast
  then show ?thesis by (simp only: e)
qed

lemma DefaultListLookup_delete_records:
  "bucket_records (d_index (snd (DefaultListLookup_delete ops d elem)))
     \<subseteq> bucket_records (d_index d)"
proof (cases "DefaultListLookup_key ops d elem")
  case None
  then show ?thesis by (auto simp: DefaultListLookup_delete_def)
next
  case (Some key)
  note key = Some
  show ?thesis
  proof (cases "map_of (d_index d) key")
    case None
    then show ?thesis using key by (auto simp: DefaultListLookup_delete_def)
  next
    case (Some bucket)
    define new where "new = filter (\<lambda>e. \<not> eq ops e elem) bucket"
    have n: "set new \<subseteq> bucket_records (d_index d)"
      using bucket_records_map_of[OF Some] by (auto simp: new_def)
    have e: "d_index (snd (DefaultListLookup_delete ops d elem))
               = AList.update key new (d_index d)"
      using key Some by (simp add: DefaultListLookup_delete_def new_def)
    have "bucket_records (AList.update key new (d_index d)) \<subseteq> bucket_records (d_index d)"
      using bucket_records_update[of key new "d_index d"] n by blast
    then show ?thesis by (simp only: e)
  qed
qed

lemma SortedSet_discard_subset:
  "SortedSet_discard ops f ss v = Inr ss' \<Longrightarrow> set ss' \<subseteq> set ss"
  using SortedKeyList_remove_subseq[of ops f v ss]
  by (auto simp: SortedSet_discard_def split: if_splits option.splits)

lemma SortedSet_remove_subset:
  "SortedSet_remove ops f ss v = Inr ss' \<Longrightarrow> set ss' \<subseteq> set ss"
  using SortedKeyList_remove_subseq[of ops f v ss]
  by (auto simp: SortedSet_remove_def split: if_splits option.splits)

lemma SortedSet_add_subset:
  "SortedSet_add ops f ss v = Inr ss' \<Longrightarrow> set ss' \<subseteq> insert v (set ss)"
  by (auto simp: SortedSet_add_def split: if_splits)

lemma ListLookup_add_records:
  "bucket_records (l_index (snd (ListLookup_add ops l elem)))
     \<subseteq> insert elem (bucket_records (l_index l))"
proof (cases "ListLookup_key ops l elem")
  case None
  then show ?thesis by (auto simp: ListLookup_add_def)
next
  case (Some key)
  obtain bucket index1 where dd: "defaultdict_getitem [] (l_index l) key = (bucket, index1)"
    by (cases "defaultdict_getitem ([]::'a list) (l_index l) key") auto
  note r = bucket_records_defaultdict_getitem[OF dd]
  show ?thesis
  proof (cases "SortedSet_discard ops (l_sort_key l) bucket elem")
    case (Inl e)
    then have "l_index (snd (ListLookup_add ops l elem)) = index1"
      using Some dd by (simp add: ListLookup_add_def)
    then show ?thesis using r(2) by auto
  next
    case (Inr b1)
    note b1 = Inr
    have s1: "set b1 \<subseteq> set bucket" using SortedSet_discard_subset[OF Inr] .
    show ?thesis
    proof (cases "SortedSet_add ops (l_sort_key l) b1 elem")
      case (Inl e)
      have e: "l_index (snd (ListLookup_add ops l elem)) = AList.update key b1 index1"
        using Some dd b1 Inl by (simp add: ListLookup_add_def)
      have "bucket_records (AList.update key b1 index1)
              \<subseteq> insert elem (bucket_records (l_index l))"
        using bucket_records_update[of key b1 index1] r s1 by blast
      then show ?thesis by (simp only: e)
    next
      case (Inr b2)
      have s2: "set b2 \<subseteq> insert elem (set b1)" using SortedSet_add_subset[OF Inr] .
      have e: "l_index (snd (ListLookup_add ops l elem)) = AList.update key b2 index1"
        using Some dd b1 Inr by (simp add: ListLookup_add_def)
      have "bucket_records (AList.update key b2 index1)
              \<subseteq> insert elem (bucket_records (l_index l))"
        using bucket_records_update[of key b2 index1] r s1 s2 by blast
      then show ?thesis by (simp only: e)
    qed
  qed
qed

lemma ListLookup_delete_records:
  "bucket_records (l_index (snd (ListLookup_delete ops l elem)))
     \<subseteq> bucket_records (l_index l)"
proof (cases "ListLookup_key ops l elem")
  case None
  then show ?thesis by (auto simp: ListLookup_delete_def)
next
  case (Some key)
  note key = Some
  show ?thesis
  proof (cases "map_of (l_index l) key")
    case None
    then show ?thesis using key by (auto simp: ListLookup_delete_def)
  next
    case (Some bucket)
    show ?thesis
    proof (cases "SortedSet_remove ops (l_sort_key l) bucket elem")
      case (Inl e)
      then show ?thesis using key Some by (simp add: ListLookup_delete_def)
    next
      case (Inr b')
      have n: "set b' \<subseteq> bucket_records (l_index l)"
        using SortedSet_remove_subset[OF Inr] bucket_records_map_of[OF Some] by blast
      have e: "l_index (snd (ListLookup_delete ops l elem)) = AList.update key b' (l_index l)"
        using key Some Inr by (simp add: ListLookup_delete_def)
      have "bucket_records (AList.update key b' (l_index l)) \<subseteq> bucket_records (l_index l)"
        using bucket_records_update[of key b' "l_index l"] n by blast
      then show ?thesis by (simp only: e)
    qed
  qed
qed

lemma index_add_records:
  "index_records (snd (index_add h idx elem)) \<subseteq> insert elem (index_records idx)"
proof (cases idx)
  case (ListLookupIndex l)
  then show ?thesis
    using ListLookup_add_records[of "model_ops h" l elem]
    by (cases "ListLookup_add (model_ops h) l elem") (simp add: index_records_def)
next
  case (DefaultListLookupIndex d)
  then show ?thesis
    using DefaultListLookup_add_records[of "model_ops h" d elem]
    by (cases "DefaultListLookup_add (model_ops h) d elem") (simp add: index_records_def)
qed

lemma index_delete_records:
  "index_records (snd (index_delete h idx elem)) \<subseteq> index_records idx"
proof (cases idx)
  case (ListLookupIndex l)
  then show ?thesis
    using ListLookup_delete_records[of "model_ops h" l elem]
    by (cases "ListLookup_delete (model_ops h) l elem") (simp add: index_records_def)
next
  case (DefaultListLookupIndex d)
  then show ?thesis
    using DefaultListLookup_delete_records[of "model_ops h" d elem]
    by (cases "DefaultListLookup_delete (model_ops h) d elem") (simp add: index_records_def)
qed

lemma CompositeLookup_each_records:
  assumes "\<And>idx. index_records (snd (m idx)) \<subseteq> S \<union> index_records idx"
  shows "(\<Union>idx \<in> set (snd (CompositeLookup_each m idxs)). index_records idx)
           \<subseteq> S \<union> (\<Union>idx \<in> set idxs. index_records idx)"
proof (induction idxs)
  case Nil
  then show ?case by simp
next
  case (Cons idx rest)
  obtain r idx' where m: "m idx = (r, idx')" by (cases "m idx") auto
  have a: "index_records idx' \<subseteq> S \<union> index_records idx"
    using assms[of idx] m by simp
  show ?case
  proof (cases r)
    case (Inl e)
    then have "snd (CompositeLookup_each m (idx # rest)) = idx' # rest"
      using m by simp
    then show ?thesis using a by auto
  next
    case (Inr u)
    obtain r2 rest' where e: "CompositeLookup_each m rest = (r2, rest')"
      by (cases "CompositeLookup_each m rest") auto
    then have "snd (CompositeLookup_each m (idx # rest)) = idx' # rest'"
      using m Inr by simp
    moreover have "(\<Union>idx \<in> set rest'. index_records idx)
           \<subseteq> S \<union> (\<Union>idx \<in> set rest. index_records idx)"
      using Cons.IH e by simp
    ultimately show ?thesis using a by auto
  qed
qed

lemma SortedSet_add_nonempty: "SortedSet_add ops f b1 r = Inr b2 \<Longrightarrow> b2 \<noteq> []"
  by (auto simp: SortedSet_add_def SortedSet_contains_def split: if_splits)
    (metis empty_iff empty_set insertI1 set_SortedKeyList_add)

lemma ChangeLog_add_logged:
  assumes add: "ChangeLog_add h log (ChangeRecord c) = (Inr (), log')"
    and ka: "l_key_attributes log = [''pk'']"
  shows "l_key_attributes log' = [''pk'']"
    and "logged log' h (change_obj c)"
    and "logged log h' r \<Longrightarrow> logged log' h' r"
proof -
  have a: "ListLookup_add (change_ops h) log c = (Inr (), log')"
    using add by (simp add: ChangeLog_add_def)
  obtain key b1 b2 where
    m: "ListLookup_key (change_ops h) log c = Some key"
      "SortedSet_add (change_ops h) (l_sort_key log) b1 c = Inr b2"
      "map_of (l_index log') = (map_of (l_index log))(key \<mapsto> b2)"
      "l_key_attributes log' = l_key_attributes log"
    using ListLookup_add_map_of[OF a] by blast
  have key: "key = [pk (h (change_obj c))]"
    using m(1) ka by (simp add: ListLookup_key_def change_ops_def change_getattr_def)
  have ne: "b2 \<noteq> []" using SortedSet_add_nonempty[OF m(2)] .
  show "l_key_attributes log' = [''pk'']" using m(4) ka by simp
  show "logged log' h (change_obj c)"
    using m(3) key ne by (simp add: logged_def)
  show "logged log' h' r" if "logged log h' r"
    using that m(3) ne by (auto simp: logged_def split: option.splits)
qed

lemma InProcessWriteBackCache_add_cacheable:
  assumes "InProcessWriteBackCache_add isc self w elem = (Inr (), self', w')"
    and "isc (heap w) elem"
  shows "\<exists>idxs log.
           CompositeLookup_add (index_add (heap w')) (indexes self) elem = (Inr (), idxs) \<and>
           ChangeLog_add (heap w') (change_log self)
               (ChangeRecord (SaveOp elem (Suc (seq_value (change_counter_seq w))) []))
             = (Inr (), log) \<and>
           self' = self\<lparr>indexes := idxs, change_log := log\<rparr> \<and>
           (\<forall>r. r \<noteq> elem \<longrightarrow> heap w' r = heap w r)"
  using assms
  by (auto simp: InProcessWriteBackCache_add_def SaveOp_init_def next_value_def Let_def
      assign_UniqueTransientValue_def split: prod.splits sum.splits if_splits)

lemma InProcessWriteBackCache_delete_cacheable:
  assumes "InProcessWriteBackCache_delete isc self w elem = (Inr (), self', w')"
    and "isc (heap w) elem"
  shows "\<exists>idxs log.
           CompositeLookup_delete (index_delete (heap w')) (indexes self) elem = (Inr (), idxs) \<and>
           ChangeLog_add (heap w') (change_log self)
               (ChangeRecord (DeleteOp elem (Suc (seq_value (change_counter_seq w)))))
             = (Inr (), log) \<and>
           self' = self\<lparr>indexes := idxs, change_log := log\<rparr> \<and>
           heap w' = heap w"
  using assms
  by (auto simp: InProcessWriteBackCache_delete_def DeleteOp_init_def next_value_def
      split: prod.splits sum.splits if_splits)

lemma logged_pk: "pk (h' r) = pk (h r) \<Longrightarrow> logged log h' r = logged log h r"
  by (simp add: logged_def)

lemma InProcessWriteBackCache_add_direct:
  assumes "InProcessWriteBackCache_add isc self w elem = (Inr (), self', w')"
    and "\<not> isc (heap w) elem"
  shows "self' = self \<and> (\<forall>r. r \<noteq> elem \<longrightarrow> heap w' r = heap w r)"
  using assms
  by (auto simp: InProcessWriteBackCache_add_def SaveOp_init_def next_value_def Let_def
      db_save_def)

lemma InProcessWriteBackCache_delete_direct:
  assumes "InProcessWriteBackCache_delete isc self w elem = (Inr (), self', w')"
    and "\<not> isc (heap w) elem"
  shows "self' = self \<and> heap w' = heap w"
  using assms
  by (auto simp: InProcessWriteBackCache_delete_def DeleteOp_init_def next_value_def Let_def
      db_save_def)

lemma unflushed_invariant:
  assumes "unflushed isc self w"
  shows "l_key_attributes (change_log self) = [''pk''] \<and> indexed_records_logged self w"
  using assms
proof (induction rule: unflushed.induct)
  case (unflushed_init idxs w)
  then show ?case
    by (simp add: InProcessWriteBackCache_init_def ChangeLog_init_def ListLookup_init_def
        ListLookup_clear_def indexed_records_logged_def)
next
  case (unflushed_add self w elem self' w')
  obtain n idxs log where s:
    "CompositeLookup_add (index_add (heap w')) (indexes self) elem = (Inr (), idxs)"
    "ChangeLog_add (heap w') (change_log self) (ChangeRecord (SaveOp elem n [])) = (Inr (), log)"
    "self' = self\<lparr>indexes := idxs, change_log := log\<rparr>"
    "\<forall>r. r \<noteq> elem \<longrightarrow> heap w' r = heap w r"
    using InProcessWriteBackCache_add_cacheable[OF unflushed_add.hyps(3,2)] by blast
  have ka: "l_key_attributes (change_log self) = [''pk'']"
    and inv: "indexed_records_logged self w"
    using unflushed_add.IH by simp_all
  note cl = ChangeLog_add_logged[OF s(2) ka]
  have "(\<Union>idx \<in> set (snd (CompositeLookup_each (\<lambda>idx. index_add (heap w') idx elem)
                                  (indexes self))). index_records idx)
               \<subseteq> {elem} \<union> (\<Union>idx \<in> set (indexes self). index_records idx)"
    by (rule CompositeLookup_each_records) (use index_add_records in auto)
  then have sub: "(\<Union>idx \<in> set idxs. index_records idx)
               \<subseteq> {elem} \<union> (\<Union>idx \<in> set (indexes self). index_records idx)"
    using s(1) by (simp add: CompositeLookup_add_def)
  have "logged log (heap w') r" if "idx \<in> set idxs" "r \<in> index_records idx" for idx r
  proof (cases "r = elem")
    case True
    then show ?thesis using cl(2) by simp
  next
    case False
    then have "r \<in> (\<Union>idx \<in> set (indexes self). index_records idx)"
      using sub that by auto
    then have "logged (change_log self) (heap w) r"
      using inv by (auto simp: indexed_records_logged_def)
    then have "logged (change_log self) (heap w') r"
      using s(4) False logged_pk[of "heap w'" r "heap w"] by simp
    then show ?thesis by (rule cl(3))
  qed
  then show ?case
    using cl(1) s(3) by (simp add: indexed_records_logged_def)
next
  case (unflushed_delete self w elem self' w')
  obtain n idxs log where s:
    "CompositeLookup_delete (index_delete (heap w')) (indexes self) elem = (Inr (), idxs)"
    "ChangeLog_add (heap w') (change_log self) (ChangeRecord (DeleteOp elem n)) = (Inr (), log)"
    "self' = self\<lparr>indexes := idxs, change_log := log\<rparr>"
    "heap w' = heap w"
    using InProcessWriteBackCache_delete_cacheable[OF unflushed_delete.hyps(3,2)] by blast
  have ka: "l_key_attributes (change_log self) = [''pk'']"
    and inv: "indexed_records_logged self w"
    using unflushed_delete.IH by simp_all
  note cl = ChangeLog_add_logged[OF s(2) ka]
  have "(\<Union>idx \<in> set (snd (CompositeLookup_each (\<lambda>idx. index_delete (heap w') idx elem)
                                  (indexes self))). index_records idx)
               \<subseteq> {} \<union> (\<Union>idx \<in> set (indexes self). index_records idx)"
    by (rule CompositeLookup_each_records) (use index_delete_records in auto)
  then have sub: "(\<Union>idx \<in> set idxs. index_records idx)
               \<subseteq> {} \<union> (\<Union>idx \<in> set (indexes self). index_records idx)"
    using s(1) by (simp add: CompositeLookup_delete_def)
  have "logged log (heap w') r" if "idx \<in> set idxs" "r \<in> index_records idx" for idx r
  proof -
    have "r \<in> (\<Union>idx \<in> set (indexes self). index_records idx)"
      using sub that by auto
    then have "logged (change_log self) (heap w') r"
      using inv s(4) by (auto simp: indexed_records_logged_def)
    then show ?thesis by (rule cl(3))
  qed
  then show ?case
    using cl(1) s(3) by (simp add: indexed_records_logged_def)
next
  case (unflushed_add_direct self w elem self' w')
  have s: "self' = self" "\<forall>r. r \<noteq> elem \<longrightarrow> heap w' r = heap w r"
    using InProcessWriteBackCache_add_direct[OF unflushed_add_direct.hyps(4,2)] by simp_all
  have "logged (change_log self) (heap w') r"
    if "idx \<in> set (indexes self)" "r \<in> index_records idx" for idx r
  proof -
    have "r \<noteq> elem" using that unflushed_add_direct.hyps(3) by auto
    then have "pk (heap w' r) = pk (heap w r)" using s(2) by simp
    moreover have "logged (change_log self) (heap w) r"
      using unflushed_add_direct.IH that by (auto simp: indexed_records_logged_def)
    ultimately show ?thesis using logged_pk[of "heap w'" r "heap w"] by simp
  qed
  then show ?case
    using unflushed_add_direct.IH s(1) by (simp add: indexed_records_logged_def)
next
  case (unflushed_delete_direct self w elem self' w')
  have "self' = self \<and> heap w' = heap w"
    using InProcessWriteBackCache_delete_direct[OF unflushed_delete_direct.hyps(3,2)] .
  then show ?case
    using unflushed_delete_direct.IH by (simp add: indexed_records_logged_def)
qed

text \<open>
  Claim C8, as stated, fails: record 3 is added and the cache is flushed; the run
  returns normally, the record is still in the index and the change log is empty.
\<close>

theorem flushed_record_indexed_not_logged:
  "fst (run_calls always_cacheable (example_cache, example_world) [Add 3, Flush]) = Inr () \<and>
   map index_buckets (indexes (fst (snd
     (run_calls always_cacheable (example_cache, example_world) [Add 3, Flush]))))
     = [[([VStr ''y''], [3])]] \<and>
   l_index (change_log (fst (snd
     (run_calls always_cacheable (example_cache, example_world) [Add 3, Flush])))) = [] \<and>
   \<not> indexed_records_logged
       (fst (snd (run_calls always_cacheable (example_cache, example_world) [Add 3, Flush])))
       (snd (snd (run_calls always_cacheable (example_cache, example_world) [Add 3, Flush])))"
  by (simp add: cache_eval DefaultListLookup_eval ListLookup_eval model_ops_defs example_defs
      indexed_records_logged_def index_records_def bucket_records_def logged_def)

text \<open>
  Claim C8, amended. In every state that a cache reaches from empty indexes and an empty
  change log by \<open>add\<close> and \<open>delete\<close> calls that return normally, with no flush in
  between and no \<open>add\<close> of a record that is not cacheable while it is in an index,
  every record present in an index has a bucket with a change record in the change log
  under its current identity. A flush leaves the indexes as they are and empties the
  change log.
\<close>

theorem unflushed_indexed_records_logged:
  assumes "unflushed is_cacheable self w"
  shows "indexed_records_logged self w \<and>
         indexes (fst (flush_changes_to_database self w)) = indexes self \<and>
         l_index (change_log (fst (flush_changes_to_database self w))) = []"
  using unflushed_invariant[OF assms]
  by (simp add: flush_changes_to_database_def ListLookup_clear_def Let_def)

lemma run_calls_unflushed:
  assumes "unflushed always_cacheable self w" and "Flush \<notin> set cs"
    and "run_calls always_cacheable (self, w) cs = (Inr (), self', w')"
  shows "unflushed always_cacheable self' w'"
  using assms
proof (induction cs arbitrary: self w)
  case Nil
  then show ?case by simp
next
  case (Cons c cs)
  obtain r self1 w1 where step: "run_call always_cacheable (self, w) c = (r, self1, w1)"
    by (cases "run_call always_cacheable (self, w) c") auto
  have r: "r = Inr ()" and rest: "run_calls always_cacheable (self1, w1) cs = (Inr (), self', w')"
    using Cons.prems(3) step by (auto split: sum.splits)
  have "unflushed always_cacheable self1 w1"
  proof (cases c)
    case (Add elem)
    have c: "always_cacheable (heap w) elem" by (simp add: always_cacheable_def)
    show ?thesis
      using step r Add unflushed_add[OF Cons.prems(1) c, of self1 w1] by simp
  next
    case (Delete elem)
    have c: "always_cacheable (heap w) elem" by (simp add: always_cacheable_def)
    show ?thesis
      using step r Delete unflushed_delete[OF Cons.prems(1) c, of self1 w1] by simp
  next
    case Flush
    then show ?thesis using Cons.prems(2) by simp
  qed
  then show ?case using Cons.IH[OF _ _ rest] Cons.prems(2) by simp
qed

theorem unflushed_indexed_records_logged_witness:
  "unflushed always_cacheable
     (fst (snd (run_calls always_cacheable (example_cache, example_world)
                  [Add 3, Add 1, Delete 3])))
     (snd (snd (run_calls always_cacheable (example_cache, example_world)
                  [Add 3, Add 1, Delete 3]))) \<and>
   map index_buckets (indexes (fst (snd (run_calls always_cacheable
     (example_cache, example_world) [Add 3, Add 1, Delete 3]))))
     = [[([VStr ''y''], []), ([VStr ''x''], [1])]] \<and>
   l_index (change_log (fst (snd (run_calls always_cacheable
     (example_cache, example_world) [Add 3, Add 1, Delete 3]))))
     = [([VTransient 0], [SaveOp 3 1 [], DeleteOp 3 3]), ([VInt 1], [SaveOp 1 2 []])] \<and>
   indexed_records_logged
     (fst (snd (run_calls always_cacheable (example_cache, example_world)
                  [Add 3, Add 1, Delete 3])))
     (snd (snd (run_calls always_cacheable (example_cache, example_world)
                  [Add 3, Add 1, Delete 3]))) \<and>
   l_index (change_log (fst (flush_changes_to_database
     (fst (snd (run_calls always_cacheable (example_cache, example_world)
                  [Add 3, Add 1, Delete 3])))
     (snd (snd (run_calls always_cacheable (example_cache, example_world)
                  [Add 3, Add 1, Delete 3])))))) = []"
proof -
  let ?R = "run_calls always_cacheable (example_cache, example_world) [Add 3, Add 1, Delete 3]"
  have init: "unflushed always_cacheable example_cache example_world"
    unfolding example_cache_def
    by (rule unflushed_init)
      (simp add: index_records_def bucket_records_def example_defs)
  have ok: "fst ?R = Inr ()"
    and idx: "map index_buckets (indexes (fst (snd ?R)))
                = [[([VStr ''y''], []), ([VStr ''x''], [1])]]"
    and log: "l_index (change_log (fst (snd ?R)))
                = [([VTransient 0], [SaveOp 3 1 [], DeleteOp 3 3]), ([VInt 1], [SaveOp 1 2 []])]"
    by (simp_all add: cache_eval DefaultListLookup_eval ListLookup_eval model_ops_defs
        example_defs)
  have "?R = (Inr (), fst (snd ?R), snd (snd ?R))"
    using ok by (metis prod.collapse)
  then have u: "unflushed always_cacheable (fst (snd ?R)) (snd (snd ?R))"
    using run_calls_unflushed[OF init, of "[Add 3, Add 1, Delete 3]"] by simp
  show ?thesis
    using unflushed_indexed_records_logged[OF u] u idx log by simp
qed

subsection \<open>Where the two paths of \<^verbatim>\<open>bulk_add\<close> agree\<close>

lemma sort_key_sorted_prefix:
  "sort_key f (sort_key f xs @ ys) = sort_key f (xs @ ys)"
proof (rule properties_for_sort_key)
  show "mset (sort_key f (xs @ ys)) = mset (sort_key f xs @ ys)" by simp
  show "sorted (map f (sort_key f (xs @ ys)))" by simp
  fix k
  have "filter (\<lambda>x. f k = f x) (sort_key f (xs @ ys)) = filter (\<lambda>x. f k = f x) (xs @ ys)"
    using sort_key_stable[of f "f k" "xs @ ys"] by (simp add: eq_commute)
  moreover have "filter (\<lambda>x. f k = f x) (sort_key f xs) = filter (\<lambda>x. f k = f x) xs"
    using sort_key_stable[of f "f k" xs] by (simp add: eq_commute)
  ultimately show "filter (\<lambda>x. f k = f x) (sort_key f (xs @ ys))
          = filter (\<lambda>x. f k = f x) (sort_key f xs @ ys)"
    by simp
qed


lemma list_remove_None: "(\<forall>y \<in> set xs. \<not> (y = x \<or> e y x)) \<Longrightarrow> list_remove e x xs = None"
  by (induction xs) auto

lemma map_of_map_buckets:
  "map_of (map (\<lambda>(key, val). (key, g val)) al) k = map_option g (map_of al k)"
  by (induction al) auto

lemma update_map_buckets:
  "AList.update k (g v) (map (\<lambda>(key, val). (key, g val)) al)
     = map (\<lambda>(key, val). (key, g val)) (AList.update k v al)"
  by (induction al) auto

lemma DefaultListLookup_add_sort_all:
  assumes key: "DefaultListLookup_key ops sB item = Some k"
    and dd: "defaultdict_getitem [] (d_index sB) k = (bucket, index1)"
    and fresh: "\<forall>y \<in> bucket_records (d_index sB). \<not> (y = item \<or> eq ops y item)"
  shows "DefaultListLookup_add ops (DefaultListLookup_sort_all sB) item
           = (Inr (), DefaultListLookup_sort_all
                        (sB\<lparr>d_index := AList.update k (bucket @ [item]) index1\<rparr>))"
proof -
  let ?f = "d_sort_key sB"
  let ?g = "\<lambda>(key, val). (key, sort_key ?f val)"
  have key': "DefaultListLookup_key ops (DefaultListLookup_sort_all sB) item = Some k"
    using key by (simp add: DefaultListLookup_key_def DefaultListLookup_sort_all_def)
  have dd': "defaultdict_getitem [] (map ?g (d_index sB)) k
               = (sort_key ?f bucket, map ?g index1)"
    using defaultdict_getitem_cases[OF dd]
    by (auto simp: defaultdict_getitem_def map_of_map_buckets)
  have "set bucket \<subseteq> bucket_records (d_index sB)"
    using bucket_records_defaultdict_getitem(1)[OF dd] .
  then have "\<forall>y \<in> set (sort_key ?f bucket). \<not> (y = item \<or> eq ops y item)"
    using fresh by auto
  then have rm: "list_remove (eq ops) item (sort_key ?f bucket) = None"
    by (rule list_remove_None)
  have srt: "sort_key ?f (sort_key ?f bucket @ [item]) = sort_key ?f (bucket @ [item])"
    by (rule sort_key_sorted_prefix)
  show ?thesis
    using key' dd' rm srt
      update_map_buckets[of k "sort_key ?f" "bucket @ [item]" index1]
    by (simp add: DefaultListLookup_add_def DefaultListLookup_sort_all_def Let_def)
qed

lemma DefaultListLookup_paths_agree:
  assumes "distinct items"
    and "\<forall>x \<in> set items. \<forall>y \<in> set items. x \<noteq> y \<longrightarrow> \<not> eq ops y x"
    and "\<forall>x \<in> set items. \<forall>y \<in> bucket_records (d_index sB). \<not> (y = x \<or> eq ops y x)"
  shows "fst (DefaultListLookup_append_all ops sB items)
           = fst (DefaultListLookup_add_each ops (DefaultListLookup_sort_all sB) items) \<and>
         (fst (DefaultListLookup_append_all ops sB items) = Inr () \<longrightarrow>
            DefaultListLookup_sort_all (snd (DefaultListLookup_append_all ops sB items))
              = snd (DefaultListLookup_add_each ops (DefaultListLookup_sort_all sB) items))"
  using assms
proof (induction items arbitrary: sB)
  case Nil
  then show ?case by simp
next
  case (Cons item items)
  show ?case
  proof (cases "DefaultListLookup_key ops sB item")
    case None
    then have "DefaultListLookup_key ops (DefaultListLookup_sort_all sB) item = None"
      by (simp add: DefaultListLookup_key_def DefaultListLookup_sort_all_def)
    then show ?thesis using None by (simp add: DefaultListLookup_add_def)
  next
    case (Some k)
    obtain bucket index1 where dd: "defaultdict_getitem [] (d_index sB) k = (bucket, index1)"
      by (cases "defaultdict_getitem ([]::'a list) (d_index sB) k") auto
    define sB' where "sB' = sB\<lparr>d_index := AList.update k (bucket @ [item]) index1\<rparr>"
    have fresh: "\<forall>y \<in> bucket_records (d_index sB). \<not> (y = item \<or> eq ops y item)"
      using Cons.prems(3) by simp
    have add: "DefaultListLookup_add ops (DefaultListLookup_sort_all sB) item
                 = (Inr (), DefaultListLookup_sort_all sB')"
      unfolding sB'_def by (rule DefaultListLookup_add_sort_all[OF Some dd fresh])
    have recs: "bucket_records (d_index sB') \<subseteq> insert item (bucket_records (d_index sB))"
      using bucket_records_update[of k "bucket @ [item]" index1]
        bucket_records_defaultdict_getitem[OF dd]
      by (auto simp: sB'_def)
    have p3: "\<forall>x \<in> set items. \<forall>y \<in> bucket_records (d_index sB'). \<not> (y = x \<or> eq ops y x)"
    proof (intro ballI)
      fix x y assume x: "x \<in> set items" and y: "y \<in> bucket_records (d_index sB')"
      show "\<not> (y = x \<or> eq ops y x)"
      proof (cases "y = item")
        case True
        then show ?thesis using x Cons.prems(1,2) by auto
      next
        case False
        then have "y \<in> bucket_records (d_index sB)" using y recs by auto
        then show ?thesis using x Cons.prems(3) by simp
      qed
    qed
    have ih: "fst (DefaultListLookup_append_all ops sB' items)
           = fst (DefaultListLookup_add_each ops (DefaultListLookup_sort_all sB') items) \<and>
         (fst (DefaultListLookup_append_all ops sB' items) = Inr () \<longrightarrow>
            DefaultListLookup_sort_all (snd (DefaultListLookup_append_all ops sB' items))
              = snd (DefaultListLookup_add_each ops (DefaultListLookup_sort_all sB') items))"
      using Cons.IH[of sB'] Cons.prems(1,2) p3 by simp
    have "DefaultListLookup_append_all ops sB (item # items)
            = DefaultListLookup_append_all ops sB' items"
      using Some dd by (simp add: sB'_def)
    moreover have "DefaultListLookup_add_each ops (DefaultListLookup_sort_all sB) (item # items)
            = DefaultListLookup_add_each ops (DefaultListLookup_sort_all sB') items"
      using add by simp
    ultimately show ?thesis using ih by simp
  qed
qed

text \<open>
  Where the two paths of \<^verbatim>\<open>bulk_add\<close> do agree: on an empty list index and a
  collection in which no two records are the same or equal, \<^verbatim>\<open>bulk_add\<close> raises
  exactly when \<open>add\<close> called once per record raises, and when they return they leave
  the same index.
\<close>

theorem bulk_add_agrees_without_duplicates:
  assumes "d_index self = []"
    and "distinct items"
    and "\<forall>x \<in> set items. \<forall>y \<in> set items. x \<noteq> y \<longrightarrow> \<not> eq ops y x"
  shows "fst (DefaultListLookup_bulk_add ops self items)
           = fst (DefaultListLookup_add_each ops self items) \<and>
         (fst (DefaultListLookup_bulk_add ops self items) = Inr () \<longrightarrow>
            snd (DefaultListLookup_bulk_add ops self items)
              = snd (DefaultListLookup_add_each ops self items))"
proof -
  have s: "DefaultListLookup_sort_all self = self"
    using assms(1) by (simp add: DefaultListLookup_sort_all_def)
  have "\<forall>x \<in> set items. \<forall>y \<in> bucket_records (d_index self). \<not> (y = x \<or> eq ops y x)"
    using assms(1) by (simp add: bucket_records_def)
  from DefaultListLookup_paths_agree[OF assms(2,3) this]
  show ?thesis
    using assms(1) s
    by (cases "DefaultListLookup_append_all ops self items")
      (auto simp: DefaultListLookup_bulk_add_def DefaultListLookup_len_def split: sum.splits)
qed


theorem bulk_add_agrees_without_duplicates_witness:
  "d_index example_index = [] \<and> distinct [1, 2, 3 :: objref] \<and>
   \<not> eq (model_ops example_heap) 1 2 \<and> \<not> eq (model_ops example_heap) 2 1 \<and>
   \<not> eq (model_ops example_heap) 1 3 \<and> \<not> eq (model_ops example_heap) 3 1 \<and>
   \<not> eq (model_ops example_heap) 2 3 \<and> \<not> eq (model_ops example_heap) 3 2 \<and>
   DefaultListLookup_bulk_add (model_ops example_heap) example_index [1, 2, 3]
     = (Inr (), example_index\<lparr>d_index := [([VStr ''x''], [1, 2]), ([VStr ''y''], [3])]\<rparr>) \<and>
   DefaultListLookup_add_each (model_ops example_heap) example_index [1, 2, 3]
     = (Inr (), example_index\<lparr>d_index := [([VStr ''x''], [1, 2]), ([VStr ''y''], [3])]\<rparr>)"
proof -
  have e: "d_index example_index = []" by (simp add: example_defs)
  have d: "distinct [1, 2, 3 :: objref]" by simp
  have ne: "\<not> eq (model_ops example_heap) 1 2" "\<not> eq (model_ops example_heap) 2 1"
    "\<not> eq (model_ops example_heap) 1 3" "\<not> eq (model_ops example_heap) 3 1"
    "\<not> eq (model_ops example_heap) 2 3" "\<not> eq (model_ops example_heap) 3 2"
    by (simp_all add: model_ops_defs example_defs)
  have p: "\<forall>x \<in> set [1, 2, 3]. \<forall>y \<in> set [1, 2, 3].
             x \<noteq> y \<longrightarrow> \<not> eq (model_ops example_heap) y x"
    using ne by simp
  have b: "DefaultListLookup_bulk_add (model_ops example_heap) example_index [1, 2, 3]
     = (Inr (), example_index\<lparr>d_index := [([VStr ''x''], [1, 2]), ([VStr ''y''], [3])]\<rparr>)"
    by (simp add: DefaultListLookup_eval model_ops_defs example_defs)
  have "snd (DefaultListLookup_add_each (model_ops example_heap) example_index [1, 2, 3])
          = example_index\<lparr>d_index := [([VStr ''x''], [1, 2]), ([VStr ''y''], [3])]\<rparr> \<and>
        fst (DefaultListLookup_add_each (model_ops example_heap) example_index [1, 2, 3])
          = Inr ()"
    using bulk_add_agrees_without_duplicates[OF e d p] b by simp
  then have a: "DefaultListLookup_add_each (model_ops example_heap) example_index [1, 2, 3]
     = (Inr (), example_index\<lparr>d_index := [([VStr ''x''], [1, 2]), ([VStr ''y''], [3])]\<rparr>)"
    by (metis prod.collapse)
  show ?thesis using e d ne b a by simp
qed

end
